theory Spec2Isabelle
  imports Main "HOL-Library.Char_ord"
begin

section \<open>Charm and bundle URLs: the embedding\<close>

subsection \<open>Bytes\<close>

text \<open>
  A Go string is a sequence of bytes, and so is a HOL \<^typ>\<open>string\<close>. The byte tests
  of the source (\<^verbatim>\<open>c >= '0' && c <= '9'\<close> and the like) compare byte values.
\<close>

definition isLower :: "char \<Rightarrow> bool" where
  "isLower c = (CHR ''a'' \<le> c \<and> c \<le> CHR ''z'')"

definition isUpper :: "char \<Rightarrow> bool" where
  "isUpper c = (CHR ''A'' \<le> c \<and> c \<le> CHR ''Z'')"

definition isDigit :: "char \<Rightarrow> bool" where
  "isDigit c = (CHR ''0'' \<le> c \<and> c \<le> CHR ''9'')"

subsection \<open>Quote\<close>

text \<open>
  \<^verbatim>\<open>fmt.Sprintf("_%02x_", b)\<close> on a byte prints its value in two lowercase
  hexadecimal digits between underscores.
\<close>

definition hexDigit :: "nat \<Rightarrow> char" where
  "hexDigit n = ''0123456789abcdef'' ! n"

definition hexByte :: "char \<Rightarrow> string" where
  "hexByte b = [hexDigit (of_char b div 16), hexDigit (of_char b mod 16)]"

text \<open>The first case of the \<^verbatim>\<open>switch\<close> in \<^verbatim>\<open>Quote\<close>.\<close>

definition isSafe :: "char \<Rightarrow> bool" where
  "isSafe b = (isLower b \<or> isUpper b \<or> isDigit b \<or> b = CHR ''.'' \<or> b = CHR ''-'')"

text \<open>What one turn of the loop of \<^verbatim>\<open>Quote\<close> appends to \<^verbatim>\<open>safe\<close>.\<close>

definition quoteByte :: "char \<Rightarrow> string" where
  "quoteByte b = (if isSafe b then [b] else ''_'' @ hexByte b @ ''_'')"

definition Quote :: "string \<Rightarrow> string" where
  "Quote unsafe = concat (map quoteByte unsafe)"


subsection \<open>Functions of Go's standard library\<close>

text \<open>
  \<^verbatim>\<open>strings.Split(s, "/")\<close> cuts \<open>s\<close> at every separator byte; the result always
  has at least one piece (\<^verbatim>\<open>Split("", "/")\<close> is the list of one empty string).
\<close>

fun Split :: "string \<Rightarrow> char \<Rightarrow> string list" where
  "Split [] sep = [[]]"
| "Split (c # cs) sep =
     (if c = sep then [] # Split cs sep
      else (case Split cs sep of [] \<Rightarrow> [[c]] | p # ps \<Rightarrow> (c # p) # ps))"

text \<open>\<^verbatim>\<open>strings.Join(parts, "/")\<close>.\<close>

fun Join :: "string list \<Rightarrow> char \<Rightarrow> string" where
  "Join [] sep = []"
| "Join [p] sep = p"
| "Join (p # q # ps) sep = p @ sep # Join (q # ps) sep"

text \<open>\<^verbatim>\<open>strings.Trim(s, "/")\<close> removes the leading and the trailing separator bytes.\<close>

definition Trim :: "string \<Rightarrow> char \<Rightarrow> string" where
  "Trim s c = rev (dropWhile (\<lambda>x. x = c) (rev (dropWhile (\<lambda>x. x = c) s)))"

definition HasPrefix :: "string \<Rightarrow> string \<Rightarrow> bool" where
  "HasPrefix s p = (take (length p) s = p)"

text \<open>
  \<^verbatim>\<open>strconv.Atoi\<close> reads an optional sign and then decimal digits, at least one, into
  an \<^verbatim>\<open>int\<close> (64 bits here). It returns an error, \<open>None\<close> below, on any other
  text (\<^verbatim>\<open>ErrSyntax\<close>) and on a value that does not fit (\<^verbatim>\<open>ErrRange\<close>).
\<close>

definition digitVal :: "char \<Rightarrow> int" where
  "digitVal c = of_char c - 48"

definition decimal :: "string \<Rightarrow> int" where
  "decimal ds = foldl (\<lambda>n c. n * 10 + digitVal c) 0 ds"

definition Atoi :: "string \<Rightarrow> int option" where
  "Atoi s =
     (let neg = HasPrefix s ''-'';
          ds = (if HasPrefix s ''-'' \<or> HasPrefix s ''+'' then drop 1 s else s);
          n = decimal ds
      in if ds = [] \<or> \<not> list_all isDigit ds then None
         else if neg then (if n > 2 ^ 63 then None else Some (- n))
         else (if n > 2 ^ 63 - 1 then None else Some n))"

text \<open>\<^verbatim>\<open>fmt.Sprintf("%d", n)\<close> for \<open>n \<ge> 0\<close>: the decimal digits of \<open>n\<close>.\<close>

function formatDecimal :: "int \<Rightarrow> string" where
  "formatDecimal n =
     (if n < 10 then [char_of (48 + n)]
      else formatDecimal (n div 10) @ [char_of (48 + n mod 10)])"
  by pat_completeness auto
termination
  by (relation "measure nat") auto

declare formatDecimal.simps [simp del]

text \<open>
  The fields of \<^verbatim>\<open>net/url.URL\<close>. Go's field \<^verbatim>\<open>User *Userinfo\<close> is
  \<open>UserInfo\<close> here, \<open>None\<close> for \<^verbatim>\<open>nil\<close>.
\<close>

record gourl =
  Scheme :: string
  Opaque :: string
  UserInfo :: "string option"
  Host :: string
  Path :: string
  RawQuery :: string
  Fragment :: string

text \<open>
  Three shapes of \<^verbatim>\<open>net/url.URL\<close> values: a relative path alone, a scheme with an
  opaque part (\<^verbatim>\<open>scheme:opaque\<close>), and a scheme with a host and a path
  (\<^verbatim>\<open>scheme://host/path\<close>).
\<close>

definition relativeURL :: "string \<Rightarrow> gourl" where
  "relativeURL p =
     \<lparr>Scheme = [], Opaque = [], UserInfo = None, Host = [], Path = p,
      RawQuery = [], Fragment = []\<rparr>"

definition opaqueURL :: "string \<Rightarrow> string \<Rightarrow> gourl" where
  "opaqueURL scheme opaque =
     \<lparr>Scheme = scheme, Opaque = opaque, UserInfo = None, Host = [], Path = [],
      RawQuery = [], Fragment = []\<rparr>"

definition hostURL :: "string \<Rightarrow> string \<Rightarrow> string \<Rightarrow> gourl" where
  "hostURL scheme host p =
     \<lparr>Scheme = scheme, Opaque = [], UserInfo = None, Host = host, Path = p,
      RawQuery = [], Fragment = []\<rparr>"

subsection \<open>What the package takes from other packages\<close>

text \<open>
  Three functions the parser calls are not part of the repository: \<^verbatim>\<open>net/url.Parse\<close>
  (\<open>None\<close> when it returns an error), \<^verbatim>\<open>series.SupportedSeries\<close> of juju/utils and
  \<^verbatim>\<open>names.IsValidUser\<close> of juju/names. Every function below takes them as the
  record \<open>E\<close>.
\<close>

record env =
  url_Parse :: "string \<Rightarrow> gourl option"
  SupportedSeries :: "string list"
  IsValidUser :: "string \<Rightarrow> bool"

subsection \<open>The URL and its validators\<close>

record URL =
  Schema :: string
  User :: string
  Name :: string
  Revision :: int
  Series :: string

text \<open>
  The errors of the parser, one constructor for each message of the source:
  \<^item> \<open>MalformedInput\<close>: cannot parse charm or bundle URL
  \<^item> \<open>UnrecognizedParts\<close>: charm or bundle URL ... has unrecognized parts
  \<^item> \<open>InvalidSchema\<close>: charm or bundle URL has invalid schema
  \<^item> \<open>InvalidForm\<close>: charm or bundle URL has invalid form
  \<^item> \<open>LocalURLWithUser\<close>: local charm or bundle URL with user name
  \<^item> \<open>InvalidSeries\<close>: charm or bundle URL has invalid series
  \<^item> \<open>NoNameInURL\<close>: URL without charm or bundle name
  \<^item> \<open>InvalidUserName\<close>: charm or bundle URL has invalid user name
  \<^item> \<open>InvalidName\<close>: URL has invalid charm or bundle name
  \<^item> \<open>MalformedRevision\<close>: charm or bundle URL has malformed revision
  \<^item> \<open>MalformedUserPath\<close>: charm or bundle URL ... malformed, expected "/u/<user>/<name>"
  \<^item> \<open>UnresolvedSeries\<close>: cannot infer charm or bundle URL for ...: charm or bundle
    url series is not resolved
  \<^item> \<open>Panic\<close>: the \<^verbatim>\<open>panic(err)\<close> of \<^verbatim>\<open>parseV1URL\<close>. Nothing recovers from it,
    so it leaves every caller the way an error does.
\<close>

datatype error =
    MalformedInput | UnrecognizedParts | InvalidSchema | InvalidForm | LocalURLWithUser
  | InvalidSeries | NoNameInURL | InvalidUserName | InvalidName | MalformedRevision
  | MalformedUserPath | UnresolvedSeries | Panic

text \<open>\<^verbatim>\<open>validSeries\<close>: the supported series, and \<^verbatim>\<open>"bundle"\<close> added by \<^verbatim>\<open>init\<close>.\<close>

definition validSeries :: "env \<Rightarrow> string set" where
  "validSeries E = insert ''bundle'' (set (SupportedSeries E))"

definition IsValidSeries :: "env \<Rightarrow> string \<Rightarrow> bool" where
  "IsValidSeries E series = (series \<in> validSeries E)"

text \<open>
  \<^verbatim>\<open>validName\<close> is the regular expression
  \<^verbatim>\<open>^[a-z][a-z0-9]*(-[a-z0-9]*[a-z][a-z0-9]*)*$\<close>. No piece of it matches a hyphen
  but the literal one, so a text matches exactly when, cut at its hyphens, its first
  piece is \<^verbatim>\<open>[a-z][a-z0-9]*\<close> and every later piece is
  \<^verbatim>\<open>[a-z0-9]*[a-z][a-z0-9]*\<close>: lowercase letters and digits, with a letter among them.
\<close>

definition isLowerOrDigit :: "char \<Rightarrow> bool" where
  "isLowerOrDigit c = (isLower c \<or> isDigit c)"

definition firstPiece :: "string \<Rightarrow> bool" where
  "firstPiece p = (case p of [] \<Rightarrow> False | c # cs \<Rightarrow> isLower c \<and> list_all isLowerOrDigit cs)"

definition laterPiece :: "string \<Rightarrow> bool" where
  "laterPiece p = (list_all isLowerOrDigit p \<and> list_ex isLower p)"

definition IsValidName :: "string \<Rightarrow> bool" where
  "IsValidName name =
     (case Split name CHR ''-'' of
        [] \<Rightarrow> False
      | p # ps \<Rightarrow> firstPiece p \<and> list_all laterPiece ps)"

subsection \<open>The compact grammar: parseV1URL\<close>

text \<open>
  The loop of \<^verbatim>\<open>parseV1URL\<close> over \<^verbatim>\<open>i\<close>, from \<^verbatim>\<open>len(r.Name) - 1\<close> down
  while \<^verbatim>\<open>i > 0\<close>; the result is \<^verbatim>\<open>r.Name\<close> and \<^verbatim>\<open>r.Revision\<close> after it.
\<close>

fun splitRevision :: "string \<Rightarrow> nat \<Rightarrow> error + string \<times> int" where
  "splitRevision name 0 = Inr (name, - 1)"
| "splitRevision name (Suc j) =
     (let i = Suc j; c = name ! i in
      if isDigit c then splitRevision name j
      else if c = CHR ''-'' \<and> i \<noteq> length name - 1 then
        (case Atoi (drop (i + 1) name) of
           None \<Rightarrow> Inl Panic
         | Some revision \<Rightarrow> Inr (take i name, revision))
      else Inr (name, - 1))"

definition parseV1URL :: "env \<Rightarrow> gourl \<Rightarrow> string \<Rightarrow> error + URL" where
  "parseV1URL E url originalURL =
     (if Scheme url \<noteq> [] \<and> Scheme url \<noteq> ''cs'' \<and> Scheme url \<noteq> ''local'' then Inl InvalidSchema
      else
        let schema = Scheme url;
            parts = Split (Path url) CHR ''/''
        in
        if length parts < 1 \<or> length parts > 4 then Inl InvalidForm
        else if HasPrefix (parts ! 0) ''~'' \<and> schema = ''local'' then Inl LocalURLWithUser
        else
          let user = (if HasPrefix (parts ! 0) ''~'' then drop 1 (parts ! 0) else []);
              parts = (if HasPrefix (parts ! 0) ''~'' then drop 1 parts else parts)
          in
          if length parts > 2 then Inl InvalidForm
          else
            let series = (if length parts = 2 then parts ! 0 else []);
                parts' = (if length parts = 2 then drop 1 parts else parts)
            in
            if length parts = 2 \<and> \<not> IsValidSeries E series then Inl InvalidSeries
            else if length parts' < 1 then Inl NoNameInURL
            else
              (case splitRevision (parts' ! 0) (length (parts' ! 0) - 1) of
                 Inl e \<Rightarrow> Inl e
               | Inr (name, revision) \<Rightarrow>
                   if user \<noteq> [] \<and> \<not> IsValidUser E user then Inl InvalidUserName
                   else if \<not> IsValidName name then Inl InvalidName
                   else Inr \<lparr>Schema = schema, User = user, Name = name,
                             Revision = revision, Series = series\<rparr>))"

subsection \<open>The slash grammar: parseV3URL\<close>

text \<open>\<^verbatim>\<open>last\<close> is an \<^verbatim>\<open>int\<close> of the source and goes down to \<open>-1\<close>.\<close>

definition parseV3URL :: "env \<Rightarrow> gourl \<Rightarrow> error + URL" where
  "parseV3URL E url =
     (if Scheme url \<noteq> [] \<and> Scheme url \<noteq> ''cs'' \<and> Scheme url \<noteq> ''local'' then Inl InvalidSchema
      else
        let schema = Scheme url;
            parts = Split (Path url) CHR ''/''
        in
        if length parts < 1 then Inl InvalidName
        else if length parts > 4 then Inl UnrecognizedParts
        else
          let last0 = int (length parts) - 1;
              conv = Atoi (parts ! nat last0);
              revision = (case conv of Some n \<Rightarrow> n | None \<Rightarrow> - 1);
              last1 = (case conv of Some n \<Rightarrow> last0 - 1 | None \<Rightarrow> last0);
              isSeries = (last1 \<ge> 0 \<and> IsValidSeries E (parts ! nat last1));
              series = (if isSeries then parts ! nat last1 else []);
              last2 = (if isSeries then last1 - 1 else last1)
          in
          if last2 < 0 \<or> \<not> IsValidName (parts ! nat last2) then Inl InvalidName
          else
            let name = parts ! nat last2;
                last3 = last2 - 1
            in
            if last3 \<ge> 0 \<and> \<not> IsValidUser E (parts ! nat last3) then Inl InvalidUserName
            else
              let user = (if last3 \<ge> 0 then parts ! nat last3 else []);
                  last4 = (if last3 \<ge> 0 then last3 - 1 else last3)
              in
              if last4 \<noteq> - 1 then Inl UnrecognizedParts
              else Inr \<lparr>Schema = schema, User = user, Name = name,
                        Revision = revision, Series = series\<rparr>)"

subsection \<open>The web grammar: parseV2URL\<close>

definition parseV2URL :: "env \<Rightarrow> gourl \<Rightarrow> error + URL" where
  "parseV2URL E url =
     (let parts = Split (Trim (Path url) CHR ''/'') CHR ''/'' in
      if parts ! 0 = ''u'' \<and> length parts < 3 then Inl MalformedUserPath
      else
        let user = (if parts ! 0 = ''u'' then parts ! 1 else []);
            parts1 = (if parts ! 0 = ''u'' then drop 2 parts else parts);
            name = parts1 ! 0;
            parts2 = drop 1 parts1;
            tail =
              (if length parts2 > 0 then
                 (case Atoi (parts2 ! 0) of
                    Some revision \<Rightarrow> Inr (revision, [])
                  | None \<Rightarrow>
                      let series = parts2 ! 0 in
                      if \<not> IsValidSeries E series then Inl InvalidSeries
                      else
                        let parts3 = drop 1 parts2 in
                        if length parts3 = 1 then
                          (case Atoi (parts3 ! 0) of
                             Some revision \<Rightarrow> Inr (revision, series)
                           | None \<Rightarrow> Inl MalformedRevision)
                        else if length parts3 \<noteq> 0 then Inl InvalidForm
                        else Inr (- 1, series))
               else Inr (- 1, []))
        in
        (case tail of
           Inl e \<Rightarrow> Inl e
         | Inr (revision, series) \<Rightarrow>
             if user \<noteq> [] \<and> \<not> IsValidUser E user then Inl InvalidUserName
             else if \<not> IsValidName name then Inl InvalidName
             else Inr \<lparr>Schema = ''cs'', User = user, Name = name,
                       Revision = revision, Series = series\<rparr>))"

subsection \<open>The dispatchers: parseNonWebURL and ParseURL\<close>

definition parseNonWebURL :: "env \<Rightarrow> gourl \<Rightarrow> string \<Rightarrow> error + URL" where
  "parseNonWebURL E url originalURL =
     (let parts = Split (Path url) CHR ''/'' in
      if IsValidSeries E (parts ! 0) then parseV1URL E url originalURL
      else
        (case parseV3URL E url of
           Inr result \<Rightarrow> Inr result
         | Inl err \<Rightarrow> parseV1URL E url originalURL))"

text \<open>The end of \<^verbatim>\<open>ParseURL\<close>: a missing schema is \<^verbatim>\<open>"cs"\<close>.\<close>

definition defaultSchema :: "URL \<Rightarrow> URL" where
  "defaultSchema curl = (if Schema curl = [] then curl\<lparr>Schema := ''cs''\<rparr> else curl)"

definition ParseURL :: "env \<Rightarrow> string \<Rightarrow> error + URL" where
  "ParseURL E url =
     (case url_Parse E url of
        None \<Rightarrow> Inl MalformedInput
      | Some u \<Rightarrow>
          if RawQuery u \<noteq> [] \<or> Fragment u \<noteq> [] \<or> UserInfo u \<noteq> None then Inl UnrecognizedParts
          else
            (case (if Opaque u \<noteq> [] then parseNonWebURL E (u\<lparr>Path := Opaque u\<rparr>) url
                   else if Scheme u = ''http'' \<or> Scheme u = ''https'' then parseV2URL E u
                   else parseNonWebURL E u url) of
               Inl err \<Rightarrow> Inl err
             | Inr curl \<Rightarrow> Inr (defaultSchema curl)))"

subsection \<open>InferURL and String\<close>

definition InferURL :: "env \<Rightarrow> string \<Rightarrow> string \<Rightarrow> error + URL" where
  "InferURL E src defaultSeries =
     (case ParseURL E src of
        Inl err \<Rightarrow> Inl err
      | Inr u \<Rightarrow>
          if Series u = [] then
            (if defaultSeries = [] then Inl UnresolvedSeries
             else Inr (u\<lparr>Series := defaultSeries\<rparr>))
          else Inr u)"

text \<open>
  The method \<^verbatim>\<open>URL.String\<close>: \<open>String_parts\<close> is the slice \<^verbatim>\<open>parts\<close> it
  builds, and \<open>URL_String\<close> its result.
\<close>

definition String_parts :: "URL \<Rightarrow> string list" where
  "String_parts u =
     (if User u \<noteq> [] then [User u] else [])
     @ [Name u]
     @ (if Series u \<noteq> [] then [Series u] else [])
     @ (if Revision u \<ge> 0 then [formatDecimal (Revision u)] else [])"

definition URL_String :: "URL \<Rightarrow> string" where
  "URL_String u = Schema u @ '':'' @ Join (String_parts u) CHR ''/''"


subsection \<open>An environment for concrete inputs\<close>

text \<open>
  To run the parser on a concrete text the three outside functions need values.
  \<open>plainParse\<close> follows \<^verbatim>\<open>net/url.Parse\<close> on texts without percent escapes whose
  host, if there is one, is a plain name: it cuts the fragment at the first \<^verbatim>\<open>#\<close>,
  reads the scheme as \<^verbatim>\<open>getscheme\<close> does (letters, then letters, digits,
  \<^verbatim>\<open>+\<close>, \<^verbatim>\<open>-\<close>, \<^verbatim>\<open>.\<close> up to a colon; a colon in front is an error), cuts the
  query at the first \<^verbatim>\<open>?\<close>, takes a rest that does not start with a slash as the
  opaque part when there is a scheme, and otherwise cuts the authority after \<^verbatim>\<open>//\<close>
  from the path. It does not decode percent escapes and does not check the host.
\<close>

fun getscheme :: "string \<Rightarrow> string \<Rightarrow> (string \<times> string) option" where
  "getscheme seen [] = Some ([], seen)"
| "getscheme seen (c # cs) =
     (if isLower c \<or> isUpper c then getscheme (seen @ [c]) cs
      else if isDigit c \<or> c = CHR ''+'' \<or> c = CHR ''-'' \<or> c = CHR ''.'' then
        (if seen = [] then Some ([], c # cs) else getscheme (seen @ [c]) cs)
      else if c = CHR '':'' then (if seen = [] then None else Some (seen, cs))
      else Some ([], seen @ c # cs))"

definition cut :: "string \<Rightarrow> char \<Rightarrow> string \<times> string" where
  "cut s c = (takeWhile (\<lambda>x. x \<noteq> c) s, drop 1 (dropWhile (\<lambda>x. x \<noteq> c) s))"

definition toLower :: "char \<Rightarrow> char" where
  "toLower c = (if isUpper c then char_of (of_char c + (32::nat)) else c)"

definition plainParse :: "string \<Rightarrow> gourl option" where
  "plainParse rawurl =
     (let u = fst (cut rawurl CHR ''#''); frag = snd (cut rawurl CHR ''#'') in
      case getscheme [] u of
        None \<Rightarrow> None
      | Some (scheme, rest0) \<Rightarrow>
          let rest = fst (cut rest0 CHR ''?'');
              base = \<lparr>Scheme = map toLower scheme, Opaque = [], UserInfo = None, Host = [],
                      Path = [], RawQuery = snd (cut rest0 CHR ''?''), Fragment = frag\<rparr>
          in
          if u = ''*'' then Some (base\<lparr>Path := ''*''\<rparr>)
          else if \<not> HasPrefix rest ''/'' \<and> scheme \<noteq> [] then Some (base\<lparr>Opaque := rest\<rparr>)
          else if \<not> HasPrefix rest ''/'' \<and> CHR '':'' \<in> set (fst (cut rest CHR ''/'')) then None
          else if HasPrefix rest ''//'' \<and> (scheme \<noteq> [] \<or> \<not> HasPrefix rest ''///'') then
            let authority = takeWhile (\<lambda>x. x \<noteq> CHR ''/'') (drop 2 rest);
                path = dropWhile (\<lambda>x. x \<noteq> CHR ''/'') (drop 2 rest)
            in
            if CHR ''@'' \<in> set authority then
              Some (base\<lparr>UserInfo := Some (rev (drop 1 (dropWhile (\<lambda>x. x \<noteq> CHR ''@'') (rev authority)))),
                         Host := rev (takeWhile (\<lambda>x. x \<noteq> CHR ''@'') (rev authority)),
                         Path := path\<rparr>)
            else Some (base\<lparr>Host := authority, Path := path\<rparr>)
          else Some (base\<lparr>Path := rest\<rparr>))"

text \<open>
  \<open>plainUser\<close> follows \<^verbatim>\<open>names.IsValidUser\<close> on ids without a domain: two bytes or
  more, a letter or digit first and last, and letters, digits, \<^verbatim>\<open>.\<close>, \<^verbatim>\<open>+\<close>,
  \<^verbatim>\<open>-\<close> between them.
\<close>

definition isAlnum :: "char \<Rightarrow> bool" where
  "isAlnum c = (isLower c \<or> isUpper c \<or> isDigit c)"

definition plainUser :: "string \<Rightarrow> bool" where
  "plainUser u =
     (length u \<ge> 2 \<and> isAlnum (hd u) \<and> isAlnum (last u) \<and>
      list_all (\<lambda>c. isAlnum c \<or> c = CHR ''.'' \<or> c = CHR ''+'' \<or> c = CHR ''-'') u)"

text \<open>The series are Ubuntu releases that juju/utils lists as supported.\<close>

definition sampleEnv :: env where
  "sampleEnv =
     \<lparr>url_Parse = plainParse,
      SupportedSeries = [''precise'', ''quantal'', ''raring'', ''saucy'', ''trusty'',
                         ''utopic'', ''vivid'', ''wily'', ''xenial''],
      IsValidUser = plainUser\<rparr>"


section \<open>Properties\<close>

subsection \<open>Quote\<close>

lemma hexDigit_inj: "a < 16 \<Longrightarrow> b < 16 \<Longrightarrow> hexDigit a = hexDigit b \<Longrightarrow> a = b"
proof -
  assume a: "a < 16" and b: "b < 16" and e: "hexDigit a = hexDigit b"
  have d: "distinct ''0123456789abcdef''" by simp
  have l: "length ''0123456789abcdef'' = 16" by simp
  from e show "a = b" unfolding hexDigit_def
    using nth_eq_iff_index_eq[OF d, of a b] a b l by simp
qed

lemma hexByte_inj: "hexByte x = hexByte y \<Longrightarrow> x = y"
proof -
  assume e: "hexByte x = hexByte y"
  let ?m = "of_char x :: nat" and ?n = "of_char y :: nat"
  have "?m < 256" and "?n < 256" by simp_all
  then have q: "?m div 16 < 16" "?n div 16 < 16"
    by (simp_all add: less_mult_imp_div_less)
  have r: "?m mod 16 < 16" "?n mod 16 < 16" by auto
  from e have "?m div 16 = ?n div 16" "?m mod 16 = ?n mod 16"
    using hexDigit_inj q r by (auto simp: hexByte_def)
  then have "?m = ?n" by (metis div_mult_mod_eq)
  then show "x = y" by simp
qed

lemma isSafe_not_underscore: "isSafe b \<Longrightarrow> b \<noteq> CHR ''_''"
  by (auto simp: isSafe_def isLower_def isUpper_def isDigit_def)

lemma quoteByte_append_inj:
  "quoteByte x @ r = quoteByte y @ s \<Longrightarrow> x = y \<and> r = s"
  by (auto simp: quoteByte_def hexByte_def split: if_splits dest: isSafe_not_underscore
      intro: hexByte_inj[unfolded hexByte_def])

lemma quoteByte_nonempty: "quoteByte b \<noteq> []"
  by (simp add: quoteByte_def)

lemma Quote_eq_imp_eq: "Quote xs = Quote ys \<Longrightarrow> xs = ys"
proof (induction xs arbitrary: ys)
  case Nil
  then show ?case by (cases ys) (auto simp: Quote_def quoteByte_nonempty)
next
  case (Cons x xs)
  show ?case
  proof (cases ys)
    case Nil
    with Cons.prems show ?thesis by (auto simp: Quote_def quoteByte_nonempty)
  next
    case (Cons y ys')
    with Cons.prems have "quoteByte x @ Quote xs = quoteByte y @ Quote ys'"
      by (simp add: Quote_def)
    then have "x = y" "Quote xs = Quote ys'" using quoteByte_append_inj by blast+
    with Cons.IH Cons show ?thesis by simp
  qed
qed

lemma Quote_all_safe: "list_all isSafe s \<Longrightarrow> Quote s = s"
  by (induction s) (auto simp: Quote_def quoteByte_def)

lemmas byte_class_defs = isSafe_def isLower_def isUpper_def isDigit_def

text \<open>
  Claim C9. \<^verbatim>\<open>Quote\<close> is a function of its input alone. A byte among the ASCII
  letters, the ASCII digits, the dot and the dash is copied; any other byte \<open>b\<close> becomes
  an underscore, the two lowercase hexadecimal digits of \<open>b\<close>, and an underscore, so the
  slash becomes \<open>_2f_\<close> and \<open>Quote "a/b c" = "a_2f_b_20_c"\<close>. An input made of
  copied bytes only comes back as it is, and two different inputs never have the same
  output.
\<close>

theorem Quote_escapes_injectively:
  "(\<forall>b. isSafe b \<longleftrightarrow>
        (CHR ''A'' \<le> b \<and> b \<le> CHR ''Z'') \<or> (CHR ''a'' \<le> b \<and> b \<le> CHR ''z'') \<or>
        (CHR ''0'' \<le> b \<and> b \<le> CHR ''9'') \<or> b = CHR ''.'' \<or> b = CHR ''-'')
   \<and> Quote [] = []
   \<and> (\<forall>b rest. isSafe b \<longrightarrow> Quote (b # rest) = b # Quote rest)
   \<and> (\<forall>b rest. \<not> isSafe b \<longrightarrow>
        Quote (b # rest) =
          CHR ''_'' # hexDigit (of_char b div 16) # hexDigit (of_char b mod 16) # CHR ''_'' # Quote rest)
   \<and> (\<forall>s. list_all isSafe s \<longrightarrow> Quote s = s)
   \<and> Quote ''/'' = ''_2f_''
   \<and> Quote ''a/b c'' = ''a_2f_b_20_c''
   \<and> (\<forall>s t. Quote s = Quote t \<longrightarrow> s = t)"
proof (intro conjI allI impI)
  fix b show "isSafe b \<longleftrightarrow>
        (CHR ''A'' \<le> b \<and> b \<le> CHR ''Z'') \<or> (CHR ''a'' \<le> b \<and> b \<le> CHR ''z'') \<or>
        (CHR ''0'' \<le> b \<and> b \<le> CHR ''9'') \<or> b = CHR ''.'' \<or> b = CHR ''-''"
    unfolding byte_class_defs by blast
next
  show "Quote [] = []" by (simp add: Quote_def)
next
  fix b rest assume "isSafe b"
  then show "Quote (b # rest) = b # Quote rest" by (simp add: Quote_def quoteByte_def)
next
  fix b rest assume "\<not> isSafe b"
  then show "Quote (b # rest) =
      CHR ''_'' # hexDigit (of_char b div 16) # hexDigit (of_char b mod 16) # CHR ''_'' # Quote rest"
    by (simp add: Quote_def quoteByte_def hexByte_def)
next
  fix s assume "list_all isSafe s"
  then show "Quote s = s" by (rule Quote_all_safe)
next
  show "Quote ''/'' = ''_2f_''"
    by (simp add: Quote_def quoteByte_def byte_class_defs hexByte_def hexDigit_def)
next
  show "Quote ''a/b c'' = ''a_2f_b_20_c''"
    by (simp add: Quote_def quoteByte_def byte_class_defs hexByte_def hexDigit_def)
next
  fix s t assume "Quote s = Quote t"
  then show "s = t" by (rule Quote_eq_imp_eq)
qed

theorem Quote_escapes_injectively_witness:
  "list_all isSafe ''azAZ09.-''
   \<and> Quote ''azAZ09.-'' = ''azAZ09.-''
   \<and> \<not> isSafe CHR ''_''
   \<and> Quote ''_x'' = CHR ''_'' # hexDigit (of_char CHR ''_'' div 16) # hexDigit (of_char CHR ''_'' mod 16) # CHR ''_'' # Quote ''x''
   \<and> Quote ''a/b'' \<noteq> Quote ''a_2f_b''"
proof -
  have s: "list_all isSafe ''azAZ09.-''" by (simp add: byte_class_defs)
  have u: "\<not> isSafe CHR ''_''" by (simp add: byte_class_defs)
  have d: "''a/b'' \<noteq> ''a_2f_b''" by simp
  from Quote_escapes_injectively s u d show ?thesis by blast
qed

subsection \<open>The dispatchers\<close>

lemma Split_nonempty: "Split s sep \<noteq> []"
  by (cases s) (auto split: list.splits)

lemmas gourl_defs = relativeURL_def opaqueURL_def hostURL_def

lemma ParseURL_nonweb:
  assumes "url_Parse E url = Some u" "RawQuery u = []" "Fragment u = []" "UserInfo u = None"
    and "Opaque u \<noteq> [] \<or> (Scheme u \<noteq> ''http'' \<and> Scheme u \<noteq> ''https'')"
  shows "ParseURL E url = map_sum id defaultSchema
           (parseNonWebURL E (if Opaque u \<noteq> [] then u\<lparr>Path := Opaque u\<rparr> else u) url)"
  using assms by (auto simp: ParseURL_def split: sum.splits)

lemma parseNonWebURL_cases:
  "IsValidSeries E (Split (Path p) CHR ''/'' ! 0) \<Longrightarrow>
     parseNonWebURL E p url = parseV1URL E p url"
  "\<not> IsValidSeries E (Split (Path p) CHR ''/'' ! 0) \<Longrightarrow> parseV3URL E p = Inr r \<Longrightarrow>
     parseNonWebURL E p url = Inr r"
  "\<not> IsValidSeries E (Split (Path p) CHR ''/'' ! 0) \<Longrightarrow> parseV3URL E p = Inl e \<Longrightarrow>
     parseNonWebURL E p url = parseV1URL E p url"
  by (simp_all add: parseNonWebURL_def)

lemma ParseURL_relative:
  "url_Parse E url = Some (relativeURL p) \<Longrightarrow>
   ParseURL E url = map_sum id defaultSchema (parseNonWebURL E (relativeURL p) url)"
  by (auto simp: ParseURL_def relativeURL_def split: sum.splits)

lemma ParseURL_opaque:
  "url_Parse E url = Some (opaqueURL sch p) \<Longrightarrow> p \<noteq> [] \<Longrightarrow>
   ParseURL E url = map_sum id defaultSchema (parseNonWebURL E ((opaqueURL sch p)\<lparr>Path := p\<rparr>) url)"
  by (auto simp: ParseURL_def opaqueURL_def split: sum.splits)

lemma ParseURL_host:
  "url_Parse E url = Some (hostURL sch h p) \<Longrightarrow> sch = ''http'' \<or> sch = ''https'' \<Longrightarrow>
   ParseURL E url = map_sum id defaultSchema (parseV2URL E (hostURL sch h p))"
  by (auto simp: ParseURL_def hostURL_def split: sum.splits)

text \<open>
  Claim C1. On an input that \<^verbatim>\<open>net/url.Parse\<close> accepts, without query, fragment
  or user information, and that is not a web URL: when the first path segment is a
  valid series, \<^verbatim>\<open>ParseURL\<close> returns what the compact grammar
  (\<^verbatim>\<open>parseV1URL\<close>) returns; otherwise it returns the result of the slash grammar
  (\<^verbatim>\<open>parseV3URL\<close>) when that succeeds, and what the compact grammar returns,
  its error included, when the slash grammar fails. A result gets the schema
  \<^verbatim>\<open>"cs"\<close> when it has none. So \<^verbatim>\<open>"precise/wordpress"\<close> is the charm
  \<^verbatim>\<open>wordpress\<close> of series \<^verbatim>\<open>precise\<close> with no user, and
  \<^verbatim>\<open>"cs:~user"\<close>, which the slash grammar rejects for its name, fails with the
  compact grammar's error for a missing name.
\<close>

theorem ParseURL_non_web_dispatch:
  "(\<forall>(E::env) url (u::gourl).
      url_Parse E url = Some u \<and> RawQuery u = [] \<and> Fragment u = [] \<and> UserInfo u = None
      \<and> (Opaque u \<noteq> [] \<or> (Scheme u \<noteq> ''http'' \<and> Scheme u \<noteq> ''https''))
      \<longrightarrow>
      (let p = (if Opaque u \<noteq> [] then u\<lparr>Path := Opaque u\<rparr> else u);
           first = Split (Path p) CHR ''/'' ! 0
       in (IsValidSeries E first \<longrightarrow>
             ParseURL E url = map_sum id defaultSchema (parseV1URL E p url))
        \<and> (\<not> IsValidSeries E first \<longrightarrow>
             (\<forall>r. parseV3URL E p = Inr r \<longrightarrow> ParseURL E url = Inr (defaultSchema r))
           \<and> (\<forall>e3. parseV3URL E p = Inl e3 \<longrightarrow>
                 ParseURL E url = map_sum id defaultSchema (parseV1URL E p url)
               \<and> (\<forall>e1. parseV1URL E p url = Inl e1 \<longrightarrow> ParseURL E url = Inl e1)))))
   \<and> (\<forall>E::env. url_Parse E ''precise/wordpress'' = Some (relativeURL ''precise/wordpress'')
          \<and> ''precise'' \<in> set (SupportedSeries E)
          \<longrightarrow> ParseURL E ''precise/wordpress''
              = Inr \<lparr>Schema = ''cs'', User = [], Name = ''wordpress'', Revision = - 1,
                     Series = ''precise''\<rparr>)
   \<and> (\<forall>E::env. url_Parse E ''cs:~user'' = Some (opaqueURL ''cs'' ''~user'')
          \<longrightarrow> parseV3URL E ((opaqueURL ''cs'' ''~user'')\<lparr>Path := ''~user''\<rparr>) = Inl InvalidName
            \<and> ParseURL E ''cs:~user'' = Inl NoNameInURL)"
proof (intro conjI allI impI)
  fix E :: env and url and u :: gourl
  assume h: "url_Parse E url = Some u \<and> RawQuery u = [] \<and> Fragment u = [] \<and> UserInfo u = None
      \<and> (Opaque u \<noteq> [] \<or> (Scheme u \<noteq> ''http'' \<and> Scheme u \<noteq> ''https''))"
  then have h1: "url_Parse E url = Some u" and h2: "RawQuery u = []" and h3: "Fragment u = []"
    and h4: "UserInfo u = None"
    and h5: "Opaque u \<noteq> [] \<or> (Scheme u \<noteq> ''http'' \<and> Scheme u \<noteq> ''https'')"
    by simp_all
  define p where "p = (if Opaque u \<noteq> [] then u\<lparr>Path := Opaque u\<rparr> else u)"
  have eq: "ParseURL E url = map_sum id defaultSchema (parseNonWebURL E p url)"
    unfolding p_def by (rule ParseURL_nonweb[OF h1 h2 h3 h4 h5])
  have "(IsValidSeries E (Split (Path p) CHR ''/'' ! 0) \<longrightarrow>
             ParseURL E url = map_sum id defaultSchema (parseV1URL E p url))
        \<and> (\<not> IsValidSeries E (Split (Path p) CHR ''/'' ! 0) \<longrightarrow>
             (\<forall>r. parseV3URL E p = Inr r \<longrightarrow> ParseURL E url = Inr (defaultSchema r))
           \<and> (\<forall>e3. parseV3URL E p = Inl e3 \<longrightarrow>
                 ParseURL E url = map_sum id defaultSchema (parseV1URL E p url)
               \<and> (\<forall>e1. parseV1URL E p url = Inl e1 \<longrightarrow> ParseURL E url = Inl e1)))"
    by (simp add: eq parseNonWebURL_cases)
  then show "let p = (if Opaque u \<noteq> [] then u\<lparr>Path := Opaque u\<rparr> else u);
           first = Split (Path p) CHR ''/'' ! 0
       in (IsValidSeries E first \<longrightarrow>
             ParseURL E url = map_sum id defaultSchema (parseV1URL E p url))
        \<and> (\<not> IsValidSeries E first \<longrightarrow>
             (\<forall>r. parseV3URL E p = Inr r \<longrightarrow> ParseURL E url = Inr (defaultSchema r))
           \<and> (\<forall>e3. parseV3URL E p = Inl e3 \<longrightarrow>
                 ParseURL E url = map_sum id defaultSchema (parseV1URL E p url)
               \<and> (\<forall>e1. parseV1URL E p url = Inl e1 \<longrightarrow> ParseURL E url = Inl e1)))"
    unfolding Let_def p_def .
next
  fix E :: env
  assume h: "url_Parse E ''precise/wordpress'' = Some (relativeURL ''precise/wordpress'')
          \<and> ''precise'' \<in> set (SupportedSeries E)"
  have a: "splitRevision ''wordpress'' (length ''wordpress'' - 1) = Inr (''wordpress'', - 1)"
    by code_simp
  have b: "IsValidName ''wordpress''" by code_simp
  from h have hp: "url_Parse E ''precise/wordpress'' = Some (relativeURL ''precise/wordpress'')"
    and hs: "''precise'' \<in> set (SupportedSeries E)" by simp_all
  have "ParseURL E ''precise/wordpress''
      = map_sum id defaultSchema (parseNonWebURL E (relativeURL ''precise/wordpress'') ''precise/wordpress'')"
    by (rule ParseURL_relative[OF hp])
  also have "\<dots> = Inr \<lparr>Schema = ''cs'', User = [], Name = ''wordpress'', Revision = - 1,
                     Series = ''precise''\<rparr>"
    using hs a b
    by (simp add: parseNonWebURL_def parseV1URL_def IsValidSeries_def validSeries_def
        HasPrefix_def defaultSchema_def relativeURL_def)
  finally show "ParseURL E ''precise/wordpress''
              = Inr \<lparr>Schema = ''cs'', User = [], Name = ''wordpress'', Revision = - 1,
                     Series = ''precise''\<rparr>" .
next
  fix E :: env
  assume h: "url_Parse E ''cs:~user'' = Some (opaqueURL ''cs'' ''~user'')"
  have a: "Atoi ''~user'' = None" by code_simp
  have b: "\<not> IsValidName ''~user''" by code_simp
  show "parseV3URL E ((opaqueURL ''cs'' ''~user'')\<lparr>Path := ''~user''\<rparr>) = Inl InvalidName"
    using a b by (simp add: parseV3URL_def opaqueURL_def)
  have "ParseURL E ''cs:~user''
      = map_sum id defaultSchema (parseNonWebURL E ((opaqueURL ''cs'' ''~user'')\<lparr>Path := ''~user''\<rparr>) ''cs:~user'')"
    by (rule ParseURL_opaque[OF h]) simp
  also have "\<dots> = Inl NoNameInURL"
    using a b
    by (simp add: parseNonWebURL_def parseV1URL_def parseV3URL_def HasPrefix_def opaqueURL_def)
  finally show "ParseURL E ''cs:~user'' = Inl NoNameInURL" .
qed

lemma sampleEnv_sel:
  "url_Parse sampleEnv = plainParse"
  "SupportedSeries sampleEnv = [''precise'', ''quantal'', ''raring'', ''saucy'', ''trusty'',
                         ''utopic'', ''vivid'', ''wily'', ''xenial'']"
  "IsValidUser sampleEnv = plainUser"
  by (simp_all add: sampleEnv_def)

theorem ParseURL_non_web_dispatch_witness:
  "ParseURL sampleEnv ''precise/wordpress''
     = Inr \<lparr>Schema = ''cs'', User = [], Name = ''wordpress'', Revision = - 1, Series = ''precise''\<rparr>
   \<and> User (projr (ParseURL sampleEnv ''precise/wordpress'')) = []
   \<and> ParseURL sampleEnv ''cs:~user'' = Inl NoNameInURL
   \<and> ParseURL sampleEnv ''cs:trusty/foo/bar''
       = map_sum id defaultSchema (parseV1URL sampleEnv ((opaqueURL ''cs'' ''trusty/foo/bar'')\<lparr>Path := ''trusty/foo/bar''\<rparr>) ''cs:trusty/foo/bar'')
   \<and> ParseURL sampleEnv ''cs:alice/foo'' = Inr (defaultSchema \<lparr>Schema = ''cs'', User = ''alice'', Name = ''foo'', Revision = - 1, Series = []\<rparr>)"
proof -
  have p1: "url_Parse sampleEnv ''precise/wordpress'' = Some (relativeURL ''precise/wordpress'')
          \<and> ''precise'' \<in> set (SupportedSeries sampleEnv)" by code_simp
  have p2: "url_Parse sampleEnv ''cs:~user'' = Some (opaqueURL ''cs'' ''~user'')" by code_simp
  have p3: "url_Parse sampleEnv ''cs:trusty/foo/bar'' = Some (opaqueURL ''cs'' ''trusty/foo/bar'')
     \<and> RawQuery (opaqueURL ''cs'' ''trusty/foo/bar'') = [] \<and> Fragment (opaqueURL ''cs'' ''trusty/foo/bar'') = []
     \<and> UserInfo (opaqueURL ''cs'' ''trusty/foo/bar'') = None
     \<and> (Opaque (opaqueURL ''cs'' ''trusty/foo/bar'') \<noteq> [] \<or> (Scheme (opaqueURL ''cs'' ''trusty/foo/bar'') \<noteq> ''http'' \<and> Scheme (opaqueURL ''cs'' ''trusty/foo/bar'') \<noteq> ''https''))"
    by code_simp
  have p3a: "Opaque (opaqueURL ''cs'' ''trusty/foo/bar'') = ''trusty/foo/bar''" by code_simp
  have p3b: "IsValidSeries sampleEnv (Split ''trusty/foo/bar'' CHR ''/'' ! 0)" by code_simp
  have p4: "url_Parse sampleEnv ''cs:alice/foo'' = Some (opaqueURL ''cs'' ''alice/foo'')
     \<and> RawQuery (opaqueURL ''cs'' ''alice/foo'') = [] \<and> Fragment (opaqueURL ''cs'' ''alice/foo'') = []
     \<and> UserInfo (opaqueURL ''cs'' ''alice/foo'') = None
     \<and> (Opaque (opaqueURL ''cs'' ''alice/foo'') \<noteq> [] \<or> (Scheme (opaqueURL ''cs'' ''alice/foo'') \<noteq> ''http'' \<and> Scheme (opaqueURL ''cs'' ''alice/foo'') \<noteq> ''https''))"
    by code_simp
  have p4a: "Opaque (opaqueURL ''cs'' ''alice/foo'') = ''alice/foo''" by code_simp
  have p4b: "\<not> IsValidSeries sampleEnv (Split ''alice/foo'' CHR ''/'' ! 0)" by code_simp
  have p4c: "parseV3URL sampleEnv ((opaqueURL ''cs'' ''alice/foo'')\<lparr>Path := ''alice/foo''\<rparr>)
     = Inr \<lparr>Schema = ''cs'', User = ''alice'', Name = ''foo'', Revision = - 1, Series = []\<rparr>" by code_simp
  note T = ParseURL_non_web_dispatch
  from T p1 have c1: "ParseURL sampleEnv ''precise/wordpress''
     = Inr \<lparr>Schema = ''cs'', User = [], Name = ''wordpress'', Revision = - 1, Series = ''precise''\<rparr>"
    by blast
  from T p2 have c2: "ParseURL sampleEnv ''cs:~user'' = Inl NoNameInURL" by blast
  from T have G: "\<And>(E::env) url (u::gourl). url_Parse E url = Some u \<and> RawQuery u = [] \<and> Fragment u = [] \<and> UserInfo u = None
      \<and> (Opaque u \<noteq> [] \<or> (Scheme u \<noteq> ''http'' \<and> Scheme u \<noteq> ''https''))
      \<Longrightarrow>
      (let p = (if Opaque u \<noteq> [] then u\<lparr>Path := Opaque u\<rparr> else u);
           first = Split (Path p) CHR ''/'' ! 0
       in (IsValidSeries E first \<longrightarrow>
             ParseURL E url = map_sum id defaultSchema (parseV1URL E p url))
        \<and> (\<not> IsValidSeries E first \<longrightarrow>
             (\<forall>r. parseV3URL E p = Inr r \<longrightarrow> ParseURL E url = Inr (defaultSchema r))
           \<and> (\<forall>e3. parseV3URL E p = Inl e3 \<longrightarrow>
                 ParseURL E url = map_sum id defaultSchema (parseV1URL E p url)
               \<and> (\<forall>e1. parseV1URL E p url = Inl e1 \<longrightarrow> ParseURL E url = Inl e1))))"
    by blast
  from G[OF p3] p3a p3b have c3: "ParseURL sampleEnv ''cs:trusty/foo/bar''
       = map_sum id defaultSchema (parseV1URL sampleEnv ((opaqueURL ''cs'' ''trusty/foo/bar'')\<lparr>Path := ''trusty/foo/bar''\<rparr>) ''cs:trusty/foo/bar'')"
    by (simp add: Let_def)
  from G[OF p4] p4a p4b p4c have c4: "ParseURL sampleEnv ''cs:alice/foo'' = Inr (defaultSchema \<lparr>Schema = ''cs'', User = ''alice'', Name = ''foo'', Revision = - 1, Series = []\<rparr>)"
    by (simp add: Let_def)
  from c1 c2 c3 c4 show ?thesis by simp
qed

subsection \<open>Concrete inputs\<close>

lemma IsValidSeries_supported: "s \<in> set (SupportedSeries E) \<Longrightarrow> IsValidSeries E s"
  by (simp add: IsValidSeries_def validSeries_def)

lemma parseV2URL_alice_foo_trusty_3:
  assumes "IsValidSeries E ''trusty''" "IsValidUser E ''alice''"
  shows "parseV2URL E (hostURL sch h ''/u/alice/foo/trusty/3'')
         = Inr \<lparr>Schema = ''cs'', User = ''alice'', Name = ''foo'', Revision = 3, Series = ''trusty''\<rparr>"
proof -
  have t: "Trim ''/u/alice/foo/trusty/3'' CHR ''/'' = ''u/alice/foo/trusty/3''" by code_simp
  have a: "Atoi ''trusty'' = None" "Atoi ''3'' = Some 3" by code_simp+
  have n: "IsValidName ''foo''" by code_simp
  show ?thesis using assms a n
    by (simp add: parseV2URL_def hostURL_def t)
qed

lemma parseV3URL_alice_foo_trusty_3:
  assumes "IsValidSeries E ''trusty''" "IsValidUser E ''alice''"
  shows "parseV3URL E ((opaqueURL ''cs'' ''alice/foo/trusty/3'')\<lparr>Path := ''alice/foo/trusty/3''\<rparr>)
         = Inr \<lparr>Schema = ''cs'', User = ''alice'', Name = ''foo'', Revision = 3, Series = ''trusty''\<rparr>"
proof -
  have a: "Atoi ''3'' = Some 3" by code_simp
  have n: "IsValidName ''foo''" by code_simp
  show ?thesis using assms a n
    by (simp add: parseV3URL_def opaqueURL_def)
qed

subsection \<open>InferURL\<close>

lemma parseNonWebURL_foo:
  "parseNonWebURL E (relativeURL ''foo'') orig
     = Inr \<lparr>Schema = [], User = [], Name = ''foo'', Revision = - 1, Series = []\<rparr>"
proof -
  have a: "Atoi ''foo'' = None" by code_simp
  have n: "IsValidName ''foo''" by code_simp
  have s: "splitRevision ''foo'' (length ''foo'' - 1) = Inr (''foo'', - 1)" by code_simp
  have v1: "parseV1URL E (relativeURL ''foo'') orig
     = Inr \<lparr>Schema = [], User = [], Name = ''foo'', Revision = - 1, Series = []\<rparr>"
    using n s by (simp add: parseV1URL_def relativeURL_def HasPrefix_def)
  have f: "Split (Path (relativeURL ''foo'')) CHR ''/'' ! 0 = ''foo''" by code_simp
  show ?thesis
  proof (cases "IsValidSeries E ''foo''")
    case True
    show ?thesis
      using parseNonWebURL_cases(1)[of E "relativeURL ''foo''" orig, unfolded f, OF True] v1
      by simp
  next
    case False
    have v3: "parseV3URL E (relativeURL ''foo'')
       = Inr \<lparr>Schema = [], User = [], Name = ''foo'', Revision = - 1, Series = []\<rparr>"
      using False a n by (simp add: parseV3URL_def relativeURL_def)
    show ?thesis
      by (rule parseNonWebURL_cases(2)[of E "relativeURL ''foo''", unfolded f, OF False v3])
  qed
qed

lemma ParseURL_foo:
  assumes "url_Parse E ''foo'' = Some (relativeURL ''foo'')"
  shows "ParseURL E ''foo''
     = Inr \<lparr>Schema = ''cs'', User = [], Name = ''foo'', Revision = - 1, Series = []\<rparr>"
  by (simp add: ParseURL_relative[OF assms] parseNonWebURL_foo defaultSchema_def)

text \<open>
  Claim C8. \<^verbatim>\<open>InferURL\<close> parses its first argument and returns the error of
  \<^verbatim>\<open>ParseURL\<close> if there is one. A result that has a series is returned as it is,
  whatever the default series. A result without series gets the default series, and when
  the default series is empty too the call fails with the error for an unresolved series.
  So \<^verbatim>\<open>InferURL("foo", "trusty")\<close> has series \<^verbatim>\<open>trusty\<close> and
  \<^verbatim>\<open>InferURL("foo", "")\<close> fails.
\<close>

theorem InferURL_fills_series:
  "(\<forall>(E::env) src (d::string) e. ParseURL E src = Inl e \<longrightarrow> InferURL E src d = Inl e)
   \<and> (\<forall>(E::env) src (d::string) u. ParseURL E src = Inr u \<and> Series u \<noteq> [] \<longrightarrow> InferURL E src d = Inr u)
   \<and> (\<forall>(E::env) src (d::string) u. ParseURL E src = Inr u \<and> Series u = [] \<and> d \<noteq> [] \<longrightarrow>
         InferURL E src d = Inr (u\<lparr>Series := d\<rparr>))
   \<and> (\<forall>(E::env) src u. ParseURL E src = Inr u \<and> Series u = [] \<longrightarrow>
         InferURL E src [] = Inl UnresolvedSeries)
   \<and> (\<forall>E::env. url_Parse E ''foo'' = Some (relativeURL ''foo'') \<longrightarrow>
         InferURL E ''foo'' ''trusty''
           = Inr \<lparr>Schema = ''cs'', User = [], Name = ''foo'', Revision = - 1, Series = ''trusty''\<rparr>
         \<and> InferURL E ''foo'' [] = Inl UnresolvedSeries)"
proof (intro conjI allI impI)
  fix E :: env and src d :: string and e
  assume "ParseURL E src = Inl e"
  then show "InferURL E src d = Inl e" by (simp add: InferURL_def)
next
  fix E :: env and src d :: string and u
  assume "ParseURL E src = Inr u \<and> Series u \<noteq> []"
  then show "InferURL E src d = Inr u" by (simp add: InferURL_def)
next
  fix E :: env and src d :: string and u
  assume "ParseURL E src = Inr u \<and> Series u = [] \<and> d \<noteq> []"
  then show "InferURL E src d = Inr (u\<lparr>Series := d\<rparr>)" by (simp add: InferURL_def)
next
  fix E :: env and src :: string and u
  assume "ParseURL E src = Inr u \<and> Series u = []"
  then show "InferURL E src [] = Inl UnresolvedSeries" by (simp add: InferURL_def)
next
  fix E :: env
  assume h: "url_Parse E ''foo'' = Some (relativeURL ''foo'')"
  show "InferURL E ''foo'' ''trusty''
           = Inr \<lparr>Schema = ''cs'', User = [], Name = ''foo'', Revision = - 1, Series = ''trusty''\<rparr>"
    by (simp add: InferURL_def ParseURL_foo[OF h])
  show "InferURL E ''foo'' [] = Inl UnresolvedSeries"
    by (simp add: InferURL_def ParseURL_foo[OF h])
qed

theorem InferURL_fills_series_witness:
  "InferURL sampleEnv ''foo'' ''trusty''
     = Inr \<lparr>Schema = ''cs'', User = [], Name = ''foo'', Revision = - 1, Series = ''trusty''\<rparr>
   \<and> InferURL sampleEnv ''foo'' [] = Inl UnresolvedSeries
   \<and> InferURL sampleEnv ''cs:precise/foo'' ''trusty''
     = Inr \<lparr>Schema = ''cs'', User = [], Name = ''foo'', Revision = - 1, Series = ''precise''\<rparr>
   \<and> InferURL sampleEnv '':foo'' ''trusty'' = Inl MalformedInput
   \<and> InferURL sampleEnv ''cs:bar'' ''xenial''
     = Inr (\<lparr>Schema = ''cs'', User = [], Name = ''bar'', Revision = - 1, Series = []\<rparr>\<lparr>Series := ''xenial''\<rparr>)
   \<and> InferURL sampleEnv ''cs:bar'' [] = Inl UnresolvedSeries"
proof -
  have p: "url_Parse sampleEnv ''foo'' = Some (relativeURL ''foo'')" by code_simp
  have q: "ParseURL sampleEnv ''cs:precise/foo''
     = Inr \<lparr>Schema = ''cs'', User = [], Name = ''foo'', Revision = - 1, Series = ''precise''\<rparr>
     \<and> Series \<lparr>Schema = ''cs'', User = [], Name = ''foo'', Revision = - 1, Series = ''precise''\<rparr> \<noteq> []"
    by code_simp
  have r: "ParseURL sampleEnv '':foo'' = Inl MalformedInput" by code_simp
  have s: "ParseURL sampleEnv ''cs:bar''
     = Inr \<lparr>Schema = ''cs'', User = [], Name = ''bar'', Revision = - 1, Series = []\<rparr>
     \<and> Series \<lparr>Schema = ''cs'', User = [], Name = ''bar'', Revision = - 1, Series = []\<rparr> = []"
    by code_simp
  have x: "''xenial'' \<noteq> []" by simp
  note T = InferURL_fills_series
  from T p have c1: "InferURL sampleEnv ''foo'' ''trusty''
     = Inr \<lparr>Schema = ''cs'', User = [], Name = ''foo'', Revision = - 1, Series = ''trusty''\<rparr>
   \<and> InferURL sampleEnv ''foo'' [] = Inl UnresolvedSeries" by blast
  from T q have c2: "InferURL sampleEnv ''cs:precise/foo'' ''trusty''
     = Inr \<lparr>Schema = ''cs'', User = [], Name = ''foo'', Revision = - 1, Series = ''precise''\<rparr>" by blast
  from T r have c3: "InferURL sampleEnv '':foo'' ''trusty'' = Inl MalformedInput" by blast
  from T s x have c4: "InferURL sampleEnv ''cs:bar'' ''xenial''
     = Inr (\<lparr>Schema = ''cs'', User = [], Name = ''bar'', Revision = - 1, Series = []\<rparr>\<lparr>Series := ''xenial''\<rparr>)" by blast
  from T s have c5: "InferURL sampleEnv ''cs:bar'' [] = Inl UnresolvedSeries" by blast
  from c1 c2 c3 c4 c5 show ?thesis by blast
qed

subsection \<open>Atoi on digits\<close>

lemma isDigit_not_sign: "isDigit c \<Longrightarrow> c \<noteq> CHR ''-'' \<and> c \<noteq> CHR ''+''"
  by (auto simp: isDigit_def)

lemma digitVal_nonneg: "isDigit c \<Longrightarrow> 0 \<le> digitVal c \<and> digitVal c \<le> 9"
proof -
  assume "isDigit c"
  then have "(48::nat) \<le> of_char c \<and> (of_char c :: nat) \<le> 57"
    by (simp add: isDigit_def less_eq_char_def)
  then have "(48::int) \<le> int (of_char c) \<and> int (of_char c) \<le> 57" by linarith
  moreover have "(of_char c :: int) = int (of_char c)" by (simp add: of_char_def)
  ultimately show ?thesis by (simp add: digitVal_def)
qed

lemma foldl_decimal_nonneg:
  "list_all isDigit ds \<Longrightarrow> 0 \<le> a \<Longrightarrow> 0 \<le> foldl (\<lambda>n c. n * 10 + digitVal c) a ds"
proof (induction ds arbitrary: a)
  case Nil
  then show ?case by simp
next
  case (Cons c ds)
  then have "0 \<le> a * 10 + digitVal c" using digitVal_nonneg[of c] by simp
  with Cons show ?case by simp
qed

lemma decimal_nonneg: "list_all isDigit ds \<Longrightarrow> 0 \<le> decimal ds"
  by (simp add: decimal_def foldl_decimal_nonneg)

lemma Atoi_digits:
  assumes "ds \<noteq> []" "list_all isDigit ds"
  shows "Atoi ds = (if decimal ds > 2 ^ 63 - 1 then None else Some (decimal ds))"
proof -
  obtain c cs where ds: "ds = c # cs" using assms(1) by (cases ds) auto
  with assms(2) have "isDigit c" by simp
  then have "c \<noteq> CHR ''-''" "c \<noteq> CHR ''+''" using isDigit_not_sign by blast+
  then have "\<not> HasPrefix ds ''-''" "\<not> HasPrefix ds ''+''" by (simp_all add: HasPrefix_def ds)
  with assms show ?thesis by (simp add: Atoi_def Let_def)
qed

lemma Atoi_digits_Some: "ds \<noteq> [] \<Longrightarrow> list_all isDigit ds \<Longrightarrow> Atoi ds = Some r \<Longrightarrow> 0 \<le> r \<and> r < 2 ^ 63"
  using decimal_nonneg[of ds] by (auto simp: Atoi_digits split: if_splits)

subsection \<open>The loop of parseV1URL\<close>

lemma splitRevision_skip_digits:
  "i \<le> j \<Longrightarrow> (\<forall>k. i < k \<and> k \<le> j \<longrightarrow> isDigit (name ! k)) \<Longrightarrow>
   splitRevision name j = splitRevision name i"
proof (induction j)
  case 0
  then show ?case by simp
next
  case (Suc j)
  show ?case
  proof (cases "i = Suc j")
    case True
    then show ?thesis by simp
  next
    case False
    with Suc.prems have le: "i \<le> j" by simp
    from Suc.prems False have "isDigit (name ! Suc j)" by simp
    then have "splitRevision name (Suc j) = splitRevision name j" by simp
    also have "\<dots> = splitRevision name i" using Suc.IH[OF le] Suc.prems(2) by simp
    finally show ?thesis .
  qed
qed

lemma splitRevision_at_hyphen:
  assumes "0 < i" "name ! i = CHR ''-''" "i \<noteq> length name - 1"
  shows "splitRevision name i =
           (case Atoi (drop (i + 1) name) of None \<Rightarrow> Inl Panic
            | Some revision \<Rightarrow> Inr (take i name, revision))"
proof -
  obtain j where i: "i = Suc j" using assms(1) by (cases i) auto
  have "\<not> isDigit (CHR ''-'')" by (simp add: isDigit_def)
  with assms(2,3)[unfolded i] show ?thesis unfolding i by (simp add: Let_def)
qed

lemma splitRevision_split:
  assumes "l \<noteq> []" "d \<noteq> []" "list_all isDigit d"
  shows "splitRevision (l @ CHR ''-'' # d) (length (l @ CHR ''-'' # d) - 1) =
           (case Atoi d of None \<Rightarrow> Inl Panic | Some revision \<Rightarrow> Inr (l, revision))"
proof -
  let ?name = "l @ CHR ''-'' # d"
  have dig: "\<forall>k. length l < k \<and> k \<le> length ?name - 1 \<longrightarrow> isDigit (?name ! k)"
  proof (intro allI impI)
    fix k assume k: "length l < k \<and> k \<le> length ?name - 1"
    then have "?name ! k = d ! (k - length l - 1)"
      by (simp add: nth_append nth_Cons')
    moreover have "k - length l - 1 < length d" using k by simp arith
    ultimately show "isDigit (?name ! k)" using assms(3) by (simp add: list_all_length)
  qed
  have "splitRevision ?name (length ?name - 1) = splitRevision ?name (length l)"
    by (rule splitRevision_skip_digits[OF _ dig]) simp
  also have "\<dots> = (case Atoi (drop (length l + 1) ?name) of None \<Rightarrow> Inl Panic
            | Some revision \<Rightarrow> Inr (take (length l) ?name, revision))"
    using assms by (intro splitRevision_at_hyphen) simp_all
  finally show ?thesis by (simp split: option.splits)
qed

lemma splitRevision_result:
  assumes "j < length name \<or> j = 0"
    and "\<forall>k. j < k \<and> k < length name \<longrightarrow> isDigit (name ! k)"
    and "splitRevision name j = Inr (l, r)"
  shows "(l = name \<and> r = - 1) \<or>
         (\<exists>d. name = l @ CHR ''-'' # d \<and> l \<noteq> [] \<and> d \<noteq> [] \<and> list_all isDigit d \<and> Atoi d = Some r)"
  using assms
proof (induction j)
  case 0
  then show ?case by simp
next
  case (Suc j)
  from Suc.prems(1) have lt: "Suc j < length name" by simp
  show ?case
  proof (cases "isDigit (name ! Suc j)")
    case True
    have "\<forall>k. j < k \<and> k < length name \<longrightarrow> isDigit (name ! k)"
    proof (intro allI impI)
      fix k assume "j < k \<and> k < length name"
      then show "isDigit (name ! k)" using True Suc.prems(2) by (cases "k = Suc j") auto
    qed
    moreover from True Suc.prems(3) have "splitRevision name j = Inr (l, r)" by simp
    ultimately show ?thesis using Suc.IH lt by simp
  next
    case False
    show ?thesis
    proof (cases "name ! Suc j = CHR ''-'' \<and> Suc j \<noteq> length name - 1")
      case True
      let ?d = "drop (Suc j + 1) name"
      from True False Suc.prems(3) have at: "Atoi ?d = Some r" and l: "l = take (Suc j) name"
        by (auto simp: Let_def split: option.splits)
      have name: "name = l @ CHR ''-'' # ?d"
        using lt True l by (metis Cons_nth_drop_Suc Suc_eq_plus1 append_take_drop_id)
      have "l \<noteq> []" using l lt by auto
      moreover have "?d \<noteq> []" using True lt by auto
      moreover have "list_all isDigit ?d"
        using Suc.prems(2) by (auto simp: list_all_length)
      ultimately show ?thesis using name at by blast
    next
      case nohyphen: False
      with False Suc.prems(3) show ?thesis by (auto simp: Let_def)
    qed
  qed
qed

lemma splitRevision_no_split:
  assumes "j < length name \<or> j = 0"
    and "\<forall>k. j < k \<and> k < length name \<longrightarrow> isDigit (name ! k)"
    and "\<not> (\<exists>l d. name = l @ CHR ''-'' # d \<and> l \<noteq> [] \<and> d \<noteq> [] \<and> list_all isDigit d)"
  shows "splitRevision name j = Inr (name, - 1)"
  using assms
proof (induction j)
  case 0
  then show ?case by simp
next
  case (Suc j)
  from Suc.prems(1) have lt: "Suc j < length name" by simp
  show ?case
  proof (cases "isDigit (name ! Suc j)")
    case True
    have "\<forall>k. j < k \<and> k < length name \<longrightarrow> isDigit (name ! k)"
    proof (intro allI impI)
      fix k assume "j < k \<and> k < length name"
      then show "isDigit (name ! k)" using True Suc.prems(2) by (cases "k = Suc j") auto
    qed
    then have "splitRevision name j = Inr (name, - 1)" using Suc.IH lt Suc.prems(3) by simp
    with True show ?thesis by simp
  next
    case False
    show ?thesis
    proof (cases "name ! Suc j = CHR ''-'' \<and> Suc j \<noteq> length name - 1")
      case True
      let ?l = "take (Suc j) name" and ?d = "drop (Suc j + 1) name"
      have "name = ?l @ CHR ''-'' # ?d"
        using lt True by (metis Cons_nth_drop_Suc Suc_eq_plus1 append_take_drop_id)
      moreover have "?l \<noteq> []" using lt by auto
      moreover have "?d \<noteq> []" using True lt by auto
      moreover have "list_all isDigit ?d"
        using Suc.prems(2) by (auto simp: list_all_length)
      ultimately have False using Suc.prems(3) by blast
      then show ?thesis ..
    next
      case nohyphen: False
      with False show ?thesis by (auto simp: Let_def)
    qed
  qed
qed

subsection \<open>What parseV1URL returns\<close>

lemma list_shape_le4:
  "length (parts :: 'a list) \<le> 4 \<Longrightarrow> parts \<noteq> [] \<Longrightarrow>
   (\<exists>x. parts = [x]) \<or> (\<exists>x y. parts = [x, y]) \<or> (\<exists>x y z. parts = [x, y, z]) \<or>
   (\<exists>x y z w. parts = [x, y, z, w])"
  by (cases parts; cases "tl parts"; cases "tl (tl parts)"; cases "tl (tl (tl parts))") auto

lemma parseV1URL_too_long:
  "4 < length (Split (Path u) CHR ''/'') \<Longrightarrow> isl (parseV1URL E u orig)"
  by (simp add: parseV1URL_def Let_def)

lemma parseV1URL_length:
  assumes "parseV1URL E u orig = Inr r"
  shows "length (Split (Path u) CHR ''/'') \<le> 4"
proof (rule ccontr)
  assume "\<not> length (Split (Path u) CHR ''/'') \<le> 4"
  then have "isl (parseV1URL E u orig)" by (intro parseV1URL_too_long) simp
  with assms show False by simp
qed

lemma parseV1URL_shape1:
  assumes "Split (Path u) CHR ''/'' = [x]" "parseV1URL E u orig = Inr r"
  shows "splitRevision x (length x - 1) = Inr (Name r, Revision r)"
  using assms(2) unfolding parseV1URL_def assms(1)
  by (auto simp: Let_def split: if_splits sum.splits prod.splits)

lemma parseV1URL_shape2:
  assumes "Split (Path u) CHR ''/'' = [x, y]" "parseV1URL E u orig = Inr r"
  shows "splitRevision y (length y - 1) = Inr (Name r, Revision r)"
  using assms(2) unfolding parseV1URL_def assms(1)
  by (auto simp: Let_def split: if_splits sum.splits prod.splits)

lemma parseV1URL_shape3:
  assumes "Split (Path u) CHR ''/'' = [x, y, z]" "parseV1URL E u orig = Inr r"
  shows "splitRevision z (length z - 1) = Inr (Name r, Revision r)"
  using assms(2) unfolding parseV1URL_def assms(1)
  by (auto simp: Let_def split: if_splits sum.splits prod.splits)

lemma parseV1URL_shape4:
  assumes "Split (Path u) CHR ''/'' = [x, y, z, w]"
  shows "isl (parseV1URL E u orig)"
  unfolding parseV1URL_def assms(1)
  by (simp add: Let_def)

lemma parseV1URL_segment:
  assumes "parseV1URL E u orig = Inr r"
  shows "splitRevision (last (Split (Path u) CHR ''/'')) (length (last (Split (Path u) CHR ''/'')) - 1)
           = Inr (Name r, Revision r)"
proof -
  from list_shape_le4[OF parseV1URL_length[OF assms] Split_nonempty]
  consider (a) x where "Split (Path u) CHR ''/'' = [x]"
    | (b) x y where "Split (Path u) CHR ''/'' = [x, y]"
    | (c) x y z where "Split (Path u) CHR ''/'' = [x, y, z]"
    | (d) x y z w where "Split (Path u) CHR ''/'' = [x, y, z, w]"
    by blast
  then show ?thesis
  proof cases
    case a
    then show ?thesis using parseV1URL_shape1[OF a assms] by simp
  next
    case b
    then show ?thesis using parseV1URL_shape2[OF b assms] by simp
  next
    case c
    then show ?thesis using parseV1URL_shape3[OF c assms] by simp
  next
    case d
    then show ?thesis using parseV1URL_shape4[OF d, of E orig] assms by simp
  qed
qed

lemma parseV1URL_valid:
  assumes "parseV1URL E u orig = Inr r"
  shows "IsValidName (Name r)" "Schema r = Scheme u"
    "Scheme u = [] \<or> Scheme u = ''cs'' \<or> Scheme u = ''local''"
    "User r = [] \<or> IsValidUser E (User r)"
  using assms unfolding parseV1URL_def
  by (auto simp: Let_def split: if_splits sum.splits prod.splits)

lemma parseV1URL_series_user:
  assumes "parseV1URL E u orig = Inr r"
  shows "Series r = [] \<or> IsValidSeries E (Series r)"
    "Schema r = ''local'' \<longrightarrow> User r = []"
  using assms unfolding parseV1URL_def
  by (auto simp: Let_def HasPrefix_def split: if_splits sum.splits prod.splits)

lemma splitRevision_whole:
  assumes "splitRevision seg (length seg - 1) = Inr (l, r)"
  shows "(l = seg \<and> r = - 1) \<or>
         (\<exists>d. seg = l @ CHR ''-'' # d \<and> l \<noteq> [] \<and> d \<noteq> [] \<and> list_all isDigit d \<and> Atoi d = Some r)"
proof -
  have "length seg - 1 < length seg \<or> length seg - 1 = 0" by (cases seg) auto
  moreover have "\<forall>k. length seg - 1 < k \<and> k < length seg \<longrightarrow> isDigit (seg ! k)" by auto
  ultimately show ?thesis using assms by (rule splitRevision_result)
qed

lemma splitRevision_whole_no_split:
  assumes "\<not> (\<exists>l d. seg = l @ CHR ''-'' # d \<and> l \<noteq> [] \<and> d \<noteq> [] \<and> list_all isDigit d)"
  shows "splitRevision seg (length seg - 1) = Inr (seg, - 1)"
proof -
  have "length seg - 1 < length seg \<or> length seg - 1 = 0" by (cases seg) auto
  moreover have "\<forall>k. length seg - 1 < k \<and> k < length seg \<longrightarrow> isDigit (seg ! k)" by auto
  ultimately show ?thesis using assms by (rule splitRevision_no_split)
qed

lemma parseV1URL_revision:
  assumes "parseV1URL E u orig = Inr r"
  shows "Revision r = - 1 \<or> (0 \<le> Revision r \<and> Revision r < 2 ^ 63)"
  using splitRevision_whole[OF parseV1URL_segment[OF assms]] Atoi_digits_Some by blast

subsection \<open>The name and revision of the compact grammar\<close>

lemma parseNonWebURL_foo_1_2:
  "parseNonWebURL E ((opaqueURL ''cs'' ''foo-1-2'')\<lparr>Path := ''foo-1-2''\<rparr>) orig = Inl InvalidName"
proof -
  let ?u = "(opaqueURL ''cs'' ''foo-1-2'')\<lparr>Path := ''foo-1-2''\<rparr>"
  have a: "Atoi ''foo-1-2'' = None" by code_simp
  have n: "\<not> IsValidName ''foo-1-2''" "\<not> IsValidName ''foo-1''" by code_simp+
  have s: "splitRevision ''foo-1-2'' (length ''foo-1-2'' - 1) = Inr (''foo-1'', 2)" by code_simp
  have v1: "parseV1URL E ?u orig = Inl InvalidName"
    using n s by (simp add: parseV1URL_def opaqueURL_def HasPrefix_def)
  have v3: "parseV3URL E ?u = Inl InvalidName"
    using a n by (simp add: parseV3URL_def opaqueURL_def)
  show ?thesis by (simp add: parseNonWebURL_def v1 v3)
qed

lemma parseNonWebURL_n0_n0_n0:
  "parseNonWebURL E (relativeURL ''n0-n0-n0'') orig
     = Inr \<lparr>Schema = [], User = [], Name = ''n0-n0-n0'', Revision = - 1, Series = []\<rparr>"
proof -
  let ?u = "relativeURL ''n0-n0-n0''"
  let ?r = "\<lparr>Schema = [], User = [], Name = ''n0-n0-n0'', Revision = - 1, Series = []\<rparr>"
  have a: "Atoi ''n0-n0-n0'' = None" by code_simp
  have n: "IsValidName ''n0-n0-n0''" by code_simp
  have s: "splitRevision ''n0-n0-n0'' (length ''n0-n0-n0'' - 1) = Inr (''n0-n0-n0'', - 1)" by code_simp
  have f: "Split (Path ?u) CHR ''/'' ! 0 = ''n0-n0-n0''" by code_simp
  have v1: "parseV1URL E ?u orig = Inr ?r"
    using n s by (simp add: parseV1URL_def relativeURL_def HasPrefix_def)
  show ?thesis
  proof (cases "IsValidSeries E ''n0-n0-n0''")
    case True
    show ?thesis using parseNonWebURL_cases(1)[of E ?u orig, unfolded f, OF True] v1 by simp
  next
    case False
    have v3: "parseV3URL E ?u = Inr ?r"
      using False a n by (simp add: parseV3URL_def relativeURL_def)
    show ?thesis by (rule parseNonWebURL_cases(2)[of E ?u, unfolded f, OF False v3])
  qed
qed

text \<open>
  Claim C5. In the compact grammar the last segment is cut into name and revision exactly
  when it is a non-empty left part, a hyphen, and a non-empty run of digits: the left part
  is the name and the digits are the revision (read by \<^verbatim>\<open>strconv.Atoi\<close>). Any other
  segment is the name as a whole, with the revision unset. The name is validated after
  the cut, on the left part. So \<^verbatim>\<open>"cs:foo-1-2"\<close> is cut into \<^verbatim>\<open>foo-1\<close> and 2
  and fails for its name, and \<^verbatim>\<open>"n0-n0-n0"\<close> is not cut and parses whole.
\<close>

theorem compact_grammar_name_revision:
  "(\<forall>l d. l \<noteq> [] \<and> d \<noteq> [] \<and> list_all isDigit d \<longrightarrow>
      splitRevision (l @ CHR ''-'' # d) (length (l @ CHR ''-'' # d) - 1)
        = (case Atoi d of None \<Rightarrow> Inl Panic | Some revision \<Rightarrow> Inr (l, revision)))
   \<and> (\<forall>seg. \<not> (\<exists>l d. seg = l @ CHR ''-'' # d \<and> l \<noteq> [] \<and> d \<noteq> [] \<and> list_all isDigit d) \<longrightarrow>
      splitRevision seg (length seg - 1) = Inr (seg, - 1))
   \<and> (\<forall>seg l r. splitRevision seg (length seg - 1) = Inr (l, r) \<and> l \<noteq> seg \<longrightarrow>
      (\<exists>d. seg = l @ CHR ''-'' # d \<and> l \<noteq> [] \<and> d \<noteq> [] \<and> list_all isDigit d \<and> Atoi d = Some r))
   \<and> (\<forall>(E::env) u orig r. parseV1URL E u orig = Inr r \<longrightarrow>
      IsValidName (Name r)
      \<and> splitRevision (last (Split (Path u) CHR ''/'')) (length (last (Split (Path u) CHR ''/'')) - 1)
          = Inr (Name r, Revision r))
   \<and> splitRevision ''foo-1-2'' (length ''foo-1-2'' - 1) = Inr (''foo-1'', 2)
   \<and> \<not> IsValidName ''foo-1''
   \<and> (\<forall>E::env. url_Parse E ''cs:foo-1-2'' = Some (opaqueURL ''cs'' ''foo-1-2'') \<longrightarrow>
        ParseURL E ''cs:foo-1-2'' = Inl InvalidName)
   \<and> splitRevision ''n0-n0-n0'' (length ''n0-n0-n0'' - 1) = Inr (''n0-n0-n0'', - 1)
   \<and> (\<forall>E::env. url_Parse E ''n0-n0-n0'' = Some (relativeURL ''n0-n0-n0'') \<longrightarrow>
        ParseURL E ''n0-n0-n0''
          = Inr \<lparr>Schema = ''cs'', User = [], Name = ''n0-n0-n0'', Revision = - 1, Series = []\<rparr>)"
proof (intro conjI allI impI)
  fix l d :: string
  assume "l \<noteq> [] \<and> d \<noteq> [] \<and> list_all isDigit d"
  then show "splitRevision (l @ CHR ''-'' # d) (length (l @ CHR ''-'' # d) - 1)
        = (case Atoi d of None \<Rightarrow> Inl Panic | Some revision \<Rightarrow> Inr (l, revision))"
    by (intro splitRevision_split) simp_all
next
  fix seg :: string
  assume "\<not> (\<exists>l d. seg = l @ CHR ''-'' # d \<and> l \<noteq> [] \<and> d \<noteq> [] \<and> list_all isDigit d)"
  then show "splitRevision seg (length seg - 1) = Inr (seg, - 1)"
    by (rule splitRevision_whole_no_split)
next
  fix seg l :: string and r :: int
  assume "splitRevision seg (length seg - 1) = Inr (l, r) \<and> l \<noteq> seg"
  then show "\<exists>d. seg = l @ CHR ''-'' # d \<and> l \<noteq> [] \<and> d \<noteq> [] \<and> list_all isDigit d \<and> Atoi d = Some r"
    using splitRevision_whole[of seg l r] by blast
next
  fix E :: env and u orig r
  assume h: "parseV1URL E u orig = Inr r"
  show "IsValidName (Name r)" by (rule parseV1URL_valid(1)[OF h])
  show "splitRevision (last (Split (Path u) CHR ''/'')) (length (last (Split (Path u) CHR ''/'')) - 1)
          = Inr (Name r, Revision r)" by (rule parseV1URL_segment[OF h])
next
  show "splitRevision ''foo-1-2'' (length ''foo-1-2'' - 1) = Inr (''foo-1'', 2)" by code_simp
next
  show "\<not> IsValidName ''foo-1''" by code_simp
next
  fix E :: env
  assume h: "url_Parse E ''cs:foo-1-2'' = Some (opaqueURL ''cs'' ''foo-1-2'')"
  have "ParseURL E ''cs:foo-1-2''
     = map_sum id defaultSchema (parseNonWebURL E ((opaqueURL ''cs'' ''foo-1-2'')\<lparr>Path := ''foo-1-2''\<rparr>) ''cs:foo-1-2'')"
    by (rule ParseURL_opaque[OF h]) simp
  then show "ParseURL E ''cs:foo-1-2'' = Inl InvalidName"
    by (simp add: parseNonWebURL_foo_1_2)
next
  show "splitRevision ''n0-n0-n0'' (length ''n0-n0-n0'' - 1) = Inr (''n0-n0-n0'', - 1)" by code_simp
next
  fix E :: env
  assume h: "url_Parse E ''n0-n0-n0'' = Some (relativeURL ''n0-n0-n0'')"
  show "ParseURL E ''n0-n0-n0''
          = Inr \<lparr>Schema = ''cs'', User = [], Name = ''n0-n0-n0'', Revision = - 1, Series = []\<rparr>"
    by (simp add: ParseURL_relative[OF h] parseNonWebURL_n0_n0_n0 defaultSchema_def)
qed

theorem compact_grammar_name_revision_witness:
  "splitRevision ''name-42'' (length ''name-42'' - 1) = Inr (''name'', 42)
   \<and> splitRevision ''-42'' (length ''-42'' - 1) = Inr (''-42'', - 1)
   \<and> (\<exists>d. ''wordpress-7'' = ''wordpress'' @ CHR ''-'' # d \<and> Atoi d = Some 7)
   \<and> IsValidName (Name (projr (parseV1URL sampleEnv ((opaqueURL ''cs'' ''precise/name-1'')\<lparr>Path := ''precise/name-1''\<rparr>) ''cs:precise/name-1'')))
   \<and> ParseURL sampleEnv ''cs:foo-1-2'' = Inl InvalidName
   \<and> ParseURL sampleEnv ''n0-n0-n0''
          = Inr \<lparr>Schema = ''cs'', User = [], Name = ''n0-n0-n0'', Revision = - 1, Series = []\<rparr>"
proof -
  note T = compact_grammar_name_revision
  have h1: "''name'' \<noteq> [] \<and> ''42'' \<noteq> [] \<and> list_all isDigit ''42''" by code_simp
  have a1: "Atoi ''42'' = Some 42" by code_simp
  from T h1 have "splitRevision (''name'' @ CHR ''-'' # ''42'') (length (''name'' @ CHR ''-'' # ''42'') - 1)
        = (case Atoi ''42'' of None \<Rightarrow> Inl Panic | Some revision \<Rightarrow> Inr (''name'', revision))"
    by blast
  then have c1: "splitRevision ''name-42'' (length ''name-42'' - 1) = Inr (''name'', 42)"
    by (simp add: a1)
  have h2: "\<not> (\<exists>l d. ''-42'' = l @ CHR ''-'' # d \<and> l \<noteq> [] \<and> d \<noteq> [] \<and> list_all isDigit d)"
  proof
    assume "\<exists>l d. ''-42'' = l @ CHR ''-'' # d \<and> l \<noteq> [] \<and> d \<noteq> [] \<and> list_all isDigit d"
    then obtain l d where e: "''-42'' = l @ CHR ''-'' # d" and l: "l \<noteq> []" by blast
    from l obtain a l' where "l = a # l'" by (cases l) auto
    with e have "''42'' = l' @ CHR ''-'' # d" by simp
    then have "CHR ''-'' \<in> set ''42''" by (metis in_set_conv_decomp)
    then show False by simp
  qed
  from T h2 have c2: "splitRevision ''-42'' (length ''-42'' - 1) = Inr (''-42'', - 1)" by blast
  have h3: "splitRevision ''wordpress-7'' (length ''wordpress-7'' - 1) = Inr (''wordpress'', 7)
            \<and> ''wordpress'' \<noteq> ''wordpress-7''" by code_simp
  from T h3 have c3: "\<exists>d. ''wordpress-7'' = ''wordpress'' @ CHR ''-'' # d \<and> Atoi d = Some 7" by blast
  have h4: "parseV1URL sampleEnv ((opaqueURL ''cs'' ''precise/name-1'')\<lparr>Path := ''precise/name-1''\<rparr>) ''cs:precise/name-1''
      = Inr \<lparr>Schema = ''cs'', User = [], Name = ''name'', Revision = 1, Series = ''precise''\<rparr>" by code_simp
  from T h4 have "IsValidName (Name \<lparr>Schema = ''cs'', User = [], Name = ''name'', Revision = 1, Series = ''precise''\<rparr>)"
    by blast
  then have c4: "IsValidName (Name (projr (parseV1URL sampleEnv ((opaqueURL ''cs'' ''precise/name-1'')\<lparr>Path := ''precise/name-1''\<rparr>) ''cs:precise/name-1'')))"
    by (simp add: h4)
  have h5: "url_Parse sampleEnv ''cs:foo-1-2'' = Some (opaqueURL ''cs'' ''foo-1-2'')" by code_simp
  from T h5 have c5: "ParseURL sampleEnv ''cs:foo-1-2'' = Inl InvalidName" by blast
  have h6: "url_Parse sampleEnv ''n0-n0-n0'' = Some (relativeURL ''n0-n0-n0'')" by code_simp
  from T h6 have c6: "ParseURL sampleEnv ''n0-n0-n0''
          = Inr \<lparr>Schema = ''cs'', User = [], Name = ''n0-n0-n0'', Revision = - 1, Series = []\<rparr>" by blast
  from c1 c2 c3 c4 c5 c6 show ?thesis by blast
qed

subsection \<open>Revisions out of range, negative revisions, local URLs with a user\<close>

lemma parseNonWebURL_large_revision:
  "parseNonWebURL E ((opaqueURL ''cs'' ''foo-99999999999999999999'')\<lparr>Path := ''foo-99999999999999999999''\<rparr>) orig
     = Inl Panic"
proof -
  let ?u = "(opaqueURL ''cs'' ''foo-99999999999999999999'')\<lparr>Path := ''foo-99999999999999999999''\<rparr>"
  have a: "Atoi ''foo-99999999999999999999'' = None" by code_simp
  have n: "\<not> IsValidName ''foo-99999999999999999999''" by code_simp
  have s: "splitRevision ''foo-99999999999999999999'' (length ''foo-99999999999999999999'' - 1) = Inl Panic"
    by code_simp
  have v1: "parseV1URL E ?u orig = Inl Panic"
    using s by (simp add: parseV1URL_def opaqueURL_def HasPrefix_def)
  have v3: "parseV3URL E ?u = Inl InvalidName"
    using a n by (simp add: parseV3URL_def opaqueURL_def)
  show ?thesis by (simp add: parseNonWebURL_def v1 v3)
qed

text \<open>
  Claim C10. The text that the loop of \<^verbatim>\<open>parseV1URL\<close> hands to \<^verbatim>\<open>strconv.Atoi\<close>
  is a non-empty run of digits, but \<^verbatim>\<open>Atoi\<close> still fails when the number does not fit
  an \<^verbatim>\<open>int\<close>, and then \<^verbatim>\<open>parseV1URL\<close> panics: every segment made of a
  non-empty left part, a hyphen and digits whose value is above \<open>2^63 - 1\<close> panics, and so
  does \<^verbatim>\<open>ParseURL\<close> on \<^verbatim>\<open>"cs:foo-99999999999999999999"\<close>.
\<close>

theorem parseV1URL_panics_on_large_revision:
  "(\<forall>l d. l \<noteq> [] \<and> d \<noteq> [] \<and> list_all isDigit d \<and> decimal d > 2 ^ 63 - 1 \<longrightarrow>
      splitRevision (l @ CHR ''-'' # d) (length (l @ CHR ''-'' # d) - 1) = Inl Panic)
   \<and> (\<forall>l d. l \<noteq> [] \<and> d \<noteq> [] \<and> list_all isDigit d \<and> decimal d \<le> 2 ^ 63 - 1 \<longrightarrow>
      splitRevision (l @ CHR ''-'' # d) (length (l @ CHR ''-'' # d) - 1) = Inr (l, decimal d))
   \<and> decimal ''99999999999999999999'' > 2 ^ 63 - 1
   \<and> (\<forall>E::env. url_Parse E ''cs:foo-99999999999999999999''
                   = Some (opaqueURL ''cs'' ''foo-99999999999999999999'') \<longrightarrow>
        ParseURL E ''cs:foo-99999999999999999999'' = Inl Panic)"
proof (intro conjI allI impI)
  fix l d :: string
  assume h: "l \<noteq> [] \<and> d \<noteq> [] \<and> list_all isDigit d \<and> decimal d > 2 ^ 63 - 1"
  then have "Atoi d = None" by (simp add: Atoi_digits)
  moreover have "splitRevision (l @ CHR ''-'' # d) (length (l @ CHR ''-'' # d) - 1)
        = (case Atoi d of None \<Rightarrow> Inl Panic | Some revision \<Rightarrow> Inr (l, revision))"
    using h by (intro splitRevision_split) simp_all
  ultimately show "splitRevision (l @ CHR ''-'' # d) (length (l @ CHR ''-'' # d) - 1) = Inl Panic"
    by simp
next
  fix l d :: string
  assume h: "l \<noteq> [] \<and> d \<noteq> [] \<and> list_all isDigit d \<and> decimal d \<le> 2 ^ 63 - 1"
  then have "Atoi d = Some (decimal d)" by (simp add: Atoi_digits)
  moreover have "splitRevision (l @ CHR ''-'' # d) (length (l @ CHR ''-'' # d) - 1)
        = (case Atoi d of None \<Rightarrow> Inl Panic | Some revision \<Rightarrow> Inr (l, revision))"
    using h by (intro splitRevision_split) simp_all
  ultimately show "splitRevision (l @ CHR ''-'' # d) (length (l @ CHR ''-'' # d) - 1) = Inr (l, decimal d)"
    by simp
next
  show "decimal ''99999999999999999999'' > 2 ^ 63 - 1" by code_simp
next
  fix E :: env
  assume h: "url_Parse E ''cs:foo-99999999999999999999''
                   = Some (opaqueURL ''cs'' ''foo-99999999999999999999'')"
  have "ParseURL E ''cs:foo-99999999999999999999''
     = map_sum id defaultSchema (parseNonWebURL E ((opaqueURL ''cs'' ''foo-99999999999999999999'')\<lparr>Path := ''foo-99999999999999999999''\<rparr>) ''cs:foo-99999999999999999999'')"
    by (rule ParseURL_opaque[OF h]) simp
  then show "ParseURL E ''cs:foo-99999999999999999999'' = Inl Panic"
    by (simp add: parseNonWebURL_large_revision)
qed

theorem parseV1URL_panics_on_large_revision_witness:
  "splitRevision ''name-9223372036854775808'' (length ''name-9223372036854775808'' - 1) = Inl Panic
   \<and> splitRevision ''name-9223372036854775807'' (length ''name-9223372036854775807'' - 1)
        = Inr (''name'', 9223372036854775807)
   \<and> ParseURL sampleEnv ''cs:foo-99999999999999999999'' = Inl Panic"
proof -
  note T = parseV1URL_panics_on_large_revision
  have h1: "''name'' \<noteq> [] \<and> ''9223372036854775808'' \<noteq> [] \<and> list_all isDigit ''9223372036854775808''
            \<and> decimal ''9223372036854775808'' > 2 ^ 63 - 1" by code_simp
  from T h1 have "splitRevision (''name'' @ CHR ''-'' # ''9223372036854775808'')
      (length (''name'' @ CHR ''-'' # ''9223372036854775808'') - 1) = Inl Panic" by blast
  then have c1: "splitRevision ''name-9223372036854775808'' (length ''name-9223372036854775808'' - 1) = Inl Panic"
    by simp
  have h2: "''name'' \<noteq> [] \<and> ''9223372036854775807'' \<noteq> [] \<and> list_all isDigit ''9223372036854775807''
            \<and> decimal ''9223372036854775807'' \<le> 2 ^ 63 - 1" by code_simp
  have d2: "decimal ''9223372036854775807'' = 9223372036854775807" by code_simp
  from T h2 have "splitRevision (''name'' @ CHR ''-'' # ''9223372036854775807'')
      (length (''name'' @ CHR ''-'' # ''9223372036854775807'') - 1) = Inr (''name'', decimal ''9223372036854775807'')"
    by blast
  then have c2: "splitRevision ''name-9223372036854775807'' (length ''name-9223372036854775807'' - 1)
        = Inr (''name'', 9223372036854775807)" by (simp add: d2)
  have h3: "url_Parse sampleEnv ''cs:foo-99999999999999999999''
                   = Some (opaqueURL ''cs'' ''foo-99999999999999999999'')" by code_simp
  from T h3 have c3: "ParseURL sampleEnv ''cs:foo-99999999999999999999'' = Inl Panic" by blast
  from c1 c2 c3 show ?thesis by blast
qed

lemma parseNonWebURL_foo_minus_5:
  assumes "\<not> IsValidSeries E ''foo''"
  shows "parseNonWebURL E ((opaqueURL ''cs'' ''foo/-5'')\<lparr>Path := ''foo/-5''\<rparr>) orig
     = Inr \<lparr>Schema = ''cs'', User = [], Name = ''foo'', Revision = - 5, Series = []\<rparr>"
proof -
  let ?u = "(opaqueURL ''cs'' ''foo/-5'')\<lparr>Path := ''foo/-5''\<rparr>"
  have a: "Atoi ''-5'' = Some (- 5)" by code_simp
  have n: "IsValidName ''foo''" by code_simp
  have f: "Split (Path ?u) CHR ''/'' ! 0 = ''foo''" by code_simp
  have v3: "parseV3URL E ?u
     = Inr \<lparr>Schema = ''cs'', User = [], Name = ''foo'', Revision = - 5, Series = []\<rparr>"
    using assms a n by (simp add: parseV3URL_def opaqueURL_def)
  show ?thesis by (rule parseNonWebURL_cases(2)[of E ?u, unfolded f, OF assms v3])
qed

lemma parseV2URL_foo_minus_5:
  "parseV2URL E (hostURL sch h ''/foo/-5'')
     = Inr \<lparr>Schema = ''cs'', User = [], Name = ''foo'', Revision = - 5, Series = []\<rparr>"
proof -
  have t: "Trim ''/foo/-5'' CHR ''/'' = ''foo/-5''" by code_simp
  have a: "Atoi ''-5'' = Some (- 5)" by code_simp
  have n: "IsValidName ''foo''" by code_simp
  show ?thesis using a n by (simp add: parseV2URL_def hostURL_def t)
qed

text \<open>
  Claim C3. The revision of a parsed URL is not always \<open>-1\<close> or non-negative: the slash
  grammar and the web grammar read the revision with \<^verbatim>\<open>strconv.Atoi\<close>, which accepts a
  sign, so \<^verbatim>\<open>"cs:foo/-5"\<close> and \<^verbatim>\<open>"https://host/foo/-5"\<close> parse with revision
  \<open>-5\<close>. The compact grammar reads digits only and never returns a revision below \<open>-1\<close>.
\<close>

theorem slash_and_web_grammars_accept_negative_revision:
  "(\<forall>E::env. url_Parse E ''cs:foo/-5'' = Some (opaqueURL ''cs'' ''foo/-5'')
         \<and> \<not> IsValidSeries E ''foo'' \<longrightarrow>
       ParseURL E ''cs:foo/-5''
         = Inr \<lparr>Schema = ''cs'', User = [], Name = ''foo'', Revision = - 5, Series = []\<rparr>)
   \<and> (\<forall>E::env. url_Parse E ''https://host/foo/-5'' = Some (hostURL ''https'' ''host'' ''/foo/-5'') \<longrightarrow>
       ParseURL E ''https://host/foo/-5''
         = Inr \<lparr>Schema = ''cs'', User = [], Name = ''foo'', Revision = - 5, Series = []\<rparr>)
   \<and> (\<forall>(E::env) u orig r. parseV1URL E u orig = Inr r \<longrightarrow>
         Revision r = - 1 \<or> (0 \<le> Revision r \<and> Revision r < 2 ^ 63))"
proof (intro conjI allI impI)
  fix E :: env
  assume h: "url_Parse E ''cs:foo/-5'' = Some (opaqueURL ''cs'' ''foo/-5'') \<and> \<not> IsValidSeries E ''foo''"
  then have p: "url_Parse E ''cs:foo/-5'' = Some (opaqueURL ''cs'' ''foo/-5'')"
    and s: "\<not> IsValidSeries E ''foo''" by simp_all
  have "ParseURL E ''cs:foo/-5''
     = map_sum id defaultSchema (parseNonWebURL E ((opaqueURL ''cs'' ''foo/-5'')\<lparr>Path := ''foo/-5''\<rparr>) ''cs:foo/-5'')"
    by (rule ParseURL_opaque[OF p]) simp
  then show "ParseURL E ''cs:foo/-5''
         = Inr \<lparr>Schema = ''cs'', User = [], Name = ''foo'', Revision = - 5, Series = []\<rparr>"
    by (simp add: parseNonWebURL_foo_minus_5[OF s] defaultSchema_def)
next
  fix E :: env
  assume h: "url_Parse E ''https://host/foo/-5'' = Some (hostURL ''https'' ''host'' ''/foo/-5'')"
  have "ParseURL E ''https://host/foo/-5''
     = map_sum id defaultSchema (parseV2URL E (hostURL ''https'' ''host'' ''/foo/-5''))"
    by (rule ParseURL_host[OF h]) simp
  then show "ParseURL E ''https://host/foo/-5''
         = Inr \<lparr>Schema = ''cs'', User = [], Name = ''foo'', Revision = - 5, Series = []\<rparr>"
    by (simp add: parseV2URL_foo_minus_5 defaultSchema_def)
next
  fix E :: env and u orig r
  assume "parseV1URL E u orig = Inr r"
  then show "Revision r = - 1 \<or> (0 \<le> Revision r \<and> Revision r < 2 ^ 63)"
    by (rule parseV1URL_revision)
qed

theorem slash_and_web_grammars_accept_negative_revision_witness:
  "ParseURL sampleEnv ''cs:foo/-5''
     = Inr \<lparr>Schema = ''cs'', User = [], Name = ''foo'', Revision = - 5, Series = []\<rparr>
   \<and> ParseURL sampleEnv ''https://host/foo/-5''
     = Inr \<lparr>Schema = ''cs'', User = [], Name = ''foo'', Revision = - 5, Series = []\<rparr>
   \<and> (Revision \<lparr>Schema = ''cs'', User = [], Name = ''name'', Revision = 42, Series = ''xenial''\<rparr> = - 1
      \<or> (0 \<le> Revision \<lparr>Schema = ''cs'', User = [], Name = ''name'', Revision = 42, Series = ''xenial''\<rparr>
         \<and> Revision \<lparr>Schema = ''cs'', User = [], Name = ''name'', Revision = 42, Series = ''xenial''\<rparr> < 2 ^ 63))"
proof -
  note T = slash_and_web_grammars_accept_negative_revision
  have h1: "url_Parse sampleEnv ''cs:foo/-5'' = Some (opaqueURL ''cs'' ''foo/-5'')
         \<and> \<not> IsValidSeries sampleEnv ''foo''" by code_simp
  have h2: "url_Parse sampleEnv ''https://host/foo/-5'' = Some (hostURL ''https'' ''host'' ''/foo/-5'')"
    by code_simp
  have h3: "parseV1URL sampleEnv ((opaqueURL ''cs'' ''xenial/name-42'')\<lparr>Path := ''xenial/name-42''\<rparr>) ''cs:xenial/name-42''
     = Inr \<lparr>Schema = ''cs'', User = [], Name = ''name'', Revision = 42, Series = ''xenial''\<rparr>"
    by code_simp
  from T h1 have c1: "ParseURL sampleEnv ''cs:foo/-5''
     = Inr \<lparr>Schema = ''cs'', User = [], Name = ''foo'', Revision = - 5, Series = []\<rparr>" by blast
  from T h2 have c2: "ParseURL sampleEnv ''https://host/foo/-5''
     = Inr \<lparr>Schema = ''cs'', User = [], Name = ''foo'', Revision = - 5, Series = []\<rparr>" by blast
  from T h3 have c3: "Revision \<lparr>Schema = ''cs'', User = [], Name = ''name'', Revision = 42, Series = ''xenial''\<rparr> = - 1
      \<or> (0 \<le> Revision \<lparr>Schema = ''cs'', User = [], Name = ''name'', Revision = 42, Series = ''xenial''\<rparr>
         \<and> Revision \<lparr>Schema = ''cs'', User = [], Name = ''name'', Revision = 42, Series = ''xenial''\<rparr> < 2 ^ 63)"
    by blast
  from c1 c2 c3 show ?thesis by blast
qed

lemma parseNonWebURL_local_alice_foo:
  assumes "IsValidUser E ''alice''" "\<not> IsValidSeries E ''alice''" "\<not> IsValidSeries E ''foo''"
  shows "parseNonWebURL E ((opaqueURL ''local'' ''alice/foo'')\<lparr>Path := ''alice/foo''\<rparr>) orig
     = Inr \<lparr>Schema = ''local'', User = ''alice'', Name = ''foo'', Revision = - 1, Series = []\<rparr>"
proof -
  let ?u = "(opaqueURL ''local'' ''alice/foo'')\<lparr>Path := ''alice/foo''\<rparr>"
  have a: "Atoi ''foo'' = None" by code_simp
  have n: "IsValidName ''foo''" by code_simp
  have f: "Split (Path ?u) CHR ''/'' ! 0 = ''alice''" by code_simp
  have v3: "parseV3URL E ?u
     = Inr \<lparr>Schema = ''local'', User = ''alice'', Name = ''foo'', Revision = - 1, Series = []\<rparr>"
    using assms a n by (simp add: parseV3URL_def opaqueURL_def)
  show ?thesis by (rule parseNonWebURL_cases(2)[of E ?u, unfolded f, OF assms(2) v3])
qed

lemma parseNonWebURL_local_tilde_alice:
  assumes "\<not> IsValidSeries E ''foo''"
  shows "parseNonWebURL E ((opaqueURL ''local'' ''~alice/trusty/foo'')\<lparr>Path := ''~alice/trusty/foo''\<rparr>) orig
     = Inl LocalURLWithUser"
proof -
  let ?u = "(opaqueURL ''local'' ''~alice/trusty/foo'')\<lparr>Path := ''~alice/trusty/foo''\<rparr>"
  have a: "Atoi ''foo'' = None" by code_simp
  have n: "IsValidName ''foo''" by code_simp
  have v1: "parseV1URL E ?u orig = Inl LocalURLWithUser"
    by (simp add: parseV1URL_def opaqueURL_def HasPrefix_def)
  have v3: "isl (parseV3URL E ?u)"
  proof (cases "IsValidUser E ''trusty''")
    case True
    then show ?thesis using assms a n by (simp add: parseV3URL_def opaqueURL_def Let_def)
  next
    case False
    then show ?thesis using assms a n by (simp add: parseV3URL_def opaqueURL_def Let_def)
  qed
  then obtain e where "parseV3URL E ?u = Inl e" by (cases "parseV3URL E ?u") auto
  then show ?thesis by (simp add: parseNonWebURL_def v1)
qed

text \<open>
  Claim C4. A parsed URL with schema \<^verbatim>\<open>local\<close> can have a user: the slash grammar
  does not check the schema when it takes a user, so \<^verbatim>\<open>"local:alice/foo"\<close> parses with
  user \<^verbatim>\<open>alice\<close>. The compact grammar does check: none of its results has schema
  \<^verbatim>\<open>local\<close> and a user, and \<^verbatim>\<open>"local:~alice/trusty/foo"\<close> fails with the error for
  a local URL with a user.
\<close>

theorem slash_grammar_accepts_local_user:
  "(\<forall>E::env. url_Parse E ''local:alice/foo'' = Some (opaqueURL ''local'' ''alice/foo'')
         \<and> IsValidUser E ''alice'' \<and> \<not> IsValidSeries E ''alice'' \<and> \<not> IsValidSeries E ''foo'' \<longrightarrow>
       ParseURL E ''local:alice/foo''
         = Inr \<lparr>Schema = ''local'', User = ''alice'', Name = ''foo'', Revision = - 1, Series = []\<rparr>)
   \<and> (\<forall>(E::env) u orig r. parseV1URL E u orig = Inr r \<and> Schema r = ''local'' \<longrightarrow> User r = [])
   \<and> (\<forall>E::env. url_Parse E ''local:~alice/trusty/foo'' = Some (opaqueURL ''local'' ''~alice/trusty/foo'')
         \<and> \<not> IsValidSeries E ''foo'' \<longrightarrow>
       ParseURL E ''local:~alice/trusty/foo'' = Inl LocalURLWithUser)"
proof (intro conjI allI impI)
  fix E :: env
  assume h: "url_Parse E ''local:alice/foo'' = Some (opaqueURL ''local'' ''alice/foo'')
         \<and> IsValidUser E ''alice'' \<and> \<not> IsValidSeries E ''alice'' \<and> \<not> IsValidSeries E ''foo''"
  then have p: "url_Parse E ''local:alice/foo'' = Some (opaqueURL ''local'' ''alice/foo'')"
    and a: "IsValidUser E ''alice''" and b: "\<not> IsValidSeries E ''alice''"
    and c: "\<not> IsValidSeries E ''foo''" by simp_all
  have "ParseURL E ''local:alice/foo''
     = map_sum id defaultSchema (parseNonWebURL E ((opaqueURL ''local'' ''alice/foo'')\<lparr>Path := ''alice/foo''\<rparr>) ''local:alice/foo'')"
    by (rule ParseURL_opaque[OF p]) simp
  then show "ParseURL E ''local:alice/foo''
         = Inr \<lparr>Schema = ''local'', User = ''alice'', Name = ''foo'', Revision = - 1, Series = []\<rparr>"
    by (simp add: parseNonWebURL_local_alice_foo[OF a b c] defaultSchema_def)
next
  fix E :: env and u orig r
  assume "parseV1URL E u orig = Inr r \<and> Schema r = ''local''"
  then show "User r = []" using parseV1URL_series_user(2)[of E u orig r] by simp
next
  fix E :: env
  assume h: "url_Parse E ''local:~alice/trusty/foo'' = Some (opaqueURL ''local'' ''~alice/trusty/foo'')
         \<and> \<not> IsValidSeries E ''foo''"
  then have p: "url_Parse E ''local:~alice/trusty/foo'' = Some (opaqueURL ''local'' ''~alice/trusty/foo'')"
    and c: "\<not> IsValidSeries E ''foo''" by simp_all
  have "ParseURL E ''local:~alice/trusty/foo''
     = map_sum id defaultSchema (parseNonWebURL E ((opaqueURL ''local'' ''~alice/trusty/foo'')\<lparr>Path := ''~alice/trusty/foo''\<rparr>) ''local:~alice/trusty/foo'')"
    by (rule ParseURL_opaque[OF p]) simp
  then show "ParseURL E ''local:~alice/trusty/foo'' = Inl LocalURLWithUser"
    by (simp add: parseNonWebURL_local_tilde_alice[OF c])
qed

theorem slash_grammar_accepts_local_user_witness:
  "ParseURL sampleEnv ''local:alice/foo''
     = Inr \<lparr>Schema = ''local'', User = ''alice'', Name = ''foo'', Revision = - 1, Series = []\<rparr>
   \<and> User \<lparr>Schema = ''local'', User = [], Name = ''name'', Revision = 1, Series = ''precise''\<rparr> = []
   \<and> ParseURL sampleEnv ''local:~alice/trusty/foo'' = Inl LocalURLWithUser"
proof -
  note T = slash_grammar_accepts_local_user
  have h1: "url_Parse sampleEnv ''local:alice/foo'' = Some (opaqueURL ''local'' ''alice/foo'')
         \<and> IsValidUser sampleEnv ''alice'' \<and> \<not> IsValidSeries sampleEnv ''alice''
         \<and> \<not> IsValidSeries sampleEnv ''foo''" by code_simp
  have h2: "parseV1URL sampleEnv ((opaqueURL ''local'' ''precise/name-1'')\<lparr>Path := ''precise/name-1''\<rparr>) ''local:precise/name-1''
     = Inr \<lparr>Schema = ''local'', User = [], Name = ''name'', Revision = 1, Series = ''precise''\<rparr>
     \<and> Schema \<lparr>Schema = ''local'', User = [], Name = ''name'', Revision = 1, Series = ''precise''\<rparr> = ''local''"
    by code_simp
  have h3: "url_Parse sampleEnv ''local:~alice/trusty/foo'' = Some (opaqueURL ''local'' ''~alice/trusty/foo'')
         \<and> \<not> IsValidSeries sampleEnv ''foo''" by code_simp
  from T h1 have c1: "ParseURL sampleEnv ''local:alice/foo''
     = Inr \<lparr>Schema = ''local'', User = ''alice'', Name = ''foo'', Revision = - 1, Series = []\<rparr>" by blast
  from T h2 have c2: "User \<lparr>Schema = ''local'', User = [], Name = ''name'', Revision = 1, Series = ''precise''\<rparr> = []"
    by blast
  from T h3 have c3: "ParseURL sampleEnv ''local:~alice/trusty/foo'' = Inl LocalURLWithUser" by blast
  from c1 c2 c3 show ?thesis by blast
qed

subsection \<open>Split, Join and Trim\<close>

lemma Split_no_sep: "p \<in> set (Split s sep) \<Longrightarrow> sep \<notin> set p"
proof (induction s arbitrary: p)
  case Nil
  then show ?case by simp
next
  case (Cons c s)
  show ?case
  proof (cases "c = sep")
    case True
    with Cons show ?thesis by auto
  next
    case False
    obtain q qs where q: "Split s sep = q # qs" using Split_nonempty by (cases "Split s sep") auto
    with False Cons.prems have "p = c # q \<or> p \<in> set qs" by simp
    then show ?thesis using Cons.IH q False by auto
  qed
qed

lemma Split_single: "sep \<notin> set p \<Longrightarrow> Split p sep = [p]"
  by (induction p) auto

lemma Split_append_sep: "sep \<notin> set p \<Longrightarrow> Split (p @ sep # rest) sep = p # Split rest sep"
  by (induction p) auto

lemma Split_Join:
  "ps \<noteq> [] \<Longrightarrow> \<forall>p\<in>set ps. sep \<notin> set p \<Longrightarrow> Split (Join ps sep) sep = ps"
proof (induction ps sep rule: Join.induct)
  case (1 sep)
  then show ?case by simp
next
  case (2 p sep)
  then show ?case by (simp add: Split_single)
next
  case (3 p q ps sep)
  then show ?case by (simp add: Split_append_sep)
qed

lemma Join_Cons: "ps \<noteq> [] \<Longrightarrow> Join (p # ps) sep = p @ sep # Join ps sep"
  by (cases ps) auto

lemma Join_nonempty: "ps \<noteq> [] \<Longrightarrow> last ps \<noteq> [] \<Longrightarrow> Join ps sep \<noteq> []"
  by (induction ps sep rule: Join.induct) auto

lemma last_Join: "ps \<noteq> [] \<Longrightarrow> last ps \<noteq> [] \<Longrightarrow> last (Join ps sep) = last (last ps)"
proof (induction ps sep rule: Join.induct)
  case (1 sep)
  then show ?case by simp
next
  case (2 p sep)
  then show ?case by simp
next
  case (3 p q ps sep)
  then have "Join (q # ps) sep \<noteq> []" by (intro Join_nonempty) auto
  with 3 show ?case by simp
qed

lemma Trim_slash:
  assumes "s \<noteq> []" "hd s \<noteq> c" "last s \<noteq> c"
  shows "Trim (c # s) c = s"
proof -
  obtain a s' where s: "s = a # s'" using assms(1) by (cases s) auto
  with assms(2) have a: "a \<noteq> c" by simp
  have "dropWhile (\<lambda>x. x = c) (rev s) = rev s"
    using assms(1,3) by (cases "rev s") (auto simp: last_rev hd_rev dest: arg_cong[where f=hd])
  then show ?thesis using a by (simp add: Trim_def s)
qed

subsection \<open>Atoi and formatDecimal\<close>

lemma Atoi_Some_range: "Atoi s = Some n \<Longrightarrow> - (2 ^ 63) \<le> n \<and> n < 2 ^ 63"
proof -
  assume h: "Atoi s = Some n"
  define ds where "ds = (if HasPrefix s ''-'' \<or> HasPrefix s ''+'' then drop 1 s else s)"
  from h have d: "list_all isDigit ds"
    by (auto simp: Atoi_def Let_def ds_def split: if_splits)
  then have nn: "0 \<le> decimal ds" by (rule decimal_nonneg)
  from h have "(n = - decimal ds \<and> decimal ds \<le> 2 ^ 63) \<or> (n = decimal ds \<and> decimal ds \<le> 2 ^ 63 - 1)"
    by (auto simp: Atoi_def Let_def ds_def split: if_splits)
  with nn show ?thesis by auto
qed

lemma decimal_snoc: "decimal (ds @ [c]) = decimal ds * 10 + digitVal c"
  by (simp add: decimal_def)

lemma digit_char:
  assumes "0 \<le> d" "d < 10"
  shows "isDigit (char_of (48 + d))" "digitVal (char_of (48 + d)) = d"
proof -
  have all: "list_all (\<lambda>d::int. isDigit (char_of (48 + d)) \<and> digitVal (char_of (48 + d)) = d)
               [0, 1, 2, 3, 4, 5, 6, 7, 8, 9]"
    by code_simp
  from assms have "d \<in> set [0, 1, 2, 3, 4, 5, 6, 7, 8, 9]" by simp arith
  with all have "isDigit (char_of (48 + d)) \<and> digitVal (char_of (48 + d)) = d"
    unfolding list_all_iff by blast
  then show "isDigit (char_of (48 + d))" "digitVal (char_of (48 + d)) = d" by simp_all
qed

lemma formatDecimal_digits:
  "0 \<le> n \<Longrightarrow> formatDecimal n \<noteq> [] \<and> list_all isDigit (formatDecimal n) \<and> decimal (formatDecimal n) = n"
proof (induction n rule: formatDecimal.induct)
  case (1 n)
  show ?case
  proof (cases "n < 10")
    case True
    with "1.prems" show ?thesis
      using digit_char[of n] by (subst (1 2 3) formatDecimal.simps) (simp add: decimal_def)
  next
    case False
    then have "0 \<le> n div 10" by simp
    with "1.IH" False have IH: "formatDecimal (n div 10) \<noteq> []"
      "list_all isDigit (formatDecimal (n div 10))" "decimal (formatDecimal (n div 10)) = n div 10"
      by simp_all
    have m: "0 \<le> n mod 10" "n mod 10 < 10" by simp_all
    from False IH show ?thesis
      using digit_char[OF m] by (subst (1 2 3) formatDecimal.simps) (simp add: decimal_snoc)
  qed
qed

lemma Atoi_formatDecimal: "0 \<le> n \<Longrightarrow> n < 2 ^ 63 \<Longrightarrow> Atoi (formatDecimal n) = Some n"
  using formatDecimal_digits[of n] by (simp add: Atoi_digits)

lemma formatDecimal_no_slash: "0 \<le> n \<Longrightarrow> CHR ''/'' \<notin> set (formatDecimal n)"
proof
  assume "0 \<le> n" and "CHR ''/'' \<in> set (formatDecimal n)"
  then have "isDigit CHR ''/''" using formatDecimal_digits[of n] by (auto simp: list_all_iff)
  then show False by (simp add: isDigit_def)
qed

subsection \<open>Valid names\<close>

lemma IsValidName_hd: "IsValidName n \<Longrightarrow> n \<noteq> [] \<and> isLower (hd n)"
proof -
  assume v: "IsValidName n"
  show ?thesis
  proof (cases n)
    case Nil
    with v show ?thesis by (simp add: IsValidName_def firstPiece_def)
  next
    case (Cons c cs)
    show ?thesis
    proof (cases "c = CHR ''-''")
      case True
      with v Cons show ?thesis by (simp add: IsValidName_def firstPiece_def)
    next
      case False
      obtain q qs where "Split cs CHR ''-'' = q # qs"
        using Split_nonempty by (cases "Split cs CHR ''-''") auto
      with v Cons False show ?thesis by (simp add: IsValidName_def firstPiece_def)
    qed
  qed
qed

lemma isLower_not_digit: "isLower c \<Longrightarrow> \<not> isDigit c \<and> c \<noteq> CHR ''-'' \<and> c \<noteq> CHR ''+'' \<and> c \<noteq> CHR ''/''"
  by (auto simp: isLower_def isDigit_def less_eq_char_def)

lemma Atoi_IsValidName: "IsValidName n \<Longrightarrow> Atoi n = None"
proof -
  assume "IsValidName n"
  then obtain c cs where n: "n = c # cs" and c: "isLower c"
    using IsValidName_hd[of n] by (cases n) auto
  from c have "\<not> isDigit c" "c \<noteq> CHR ''-''" "c \<noteq> CHR ''+''" using isLower_not_digit by blast+
  then show ?thesis by (simp add: Atoi_def HasPrefix_def n Let_def)
qed

subsection \<open>What the slash grammar returns\<close>

lemma parseV3URL_too_long:
  "4 < length (Split (Path u) CHR ''/'') \<Longrightarrow> isl (parseV3URL E u)"
  by (simp add: parseV3URL_def Let_def)

lemma parseV3URL_length:
  assumes "parseV3URL E u = Inr r"
  shows "length (Split (Path u) CHR ''/'') \<le> 4"
proof (rule ccontr)
  assume "\<not> length (Split (Path u) CHR ''/'') \<le> 4"
  then have "isl (parseV3URL E u)" by (intro parseV3URL_too_long) simp
  with assms show False by simp
qed

lemma parseV3URL_shape1:
  assumes "Split (Path u) CHR ''/'' = [x]" "parseV3URL E u = Inr r"
  shows "Schema r = Scheme u \<and> (Scheme u = [] \<or> Scheme u = ''cs'' \<or> Scheme u = ''local'')
    \<and> IsValidName (Name r) \<and> (User r = [] \<or> IsValidUser E (User r))
    \<and> (Series r = [] \<or> IsValidSeries E (Series r))
    \<and> (Revision r = - 1 \<or> (\<exists>p. Atoi p = Some (Revision r)))
    \<and> User r \<in> set [[], x] \<and> Name r \<in> set [x] \<and> Series r \<in> set [[], x]"
  using assms(2) unfolding parseV3URL_def assms(1)
  by (auto simp: Let_def split: if_splits option.splits)

lemma parseV3URL_shape2:
  assumes "Split (Path u) CHR ''/'' = [x, y]" "parseV3URL E u = Inr r"
  shows "Schema r = Scheme u \<and> (Scheme u = [] \<or> Scheme u = ''cs'' \<or> Scheme u = ''local'')
    \<and> IsValidName (Name r) \<and> (User r = [] \<or> IsValidUser E (User r))
    \<and> (Series r = [] \<or> IsValidSeries E (Series r))
    \<and> (Revision r = - 1 \<or> (\<exists>p. Atoi p = Some (Revision r)))
    \<and> User r \<in> set [[], x, y] \<and> Name r \<in> set [x, y] \<and> Series r \<in> set [[], x, y]"
  using assms(2) unfolding parseV3URL_def assms(1)
  by (auto simp: Let_def split: if_splits option.splits)

lemma parseV3URL_shape3:
  assumes "Split (Path u) CHR ''/'' = [x, y, z]" "parseV3URL E u = Inr r"
  shows "Schema r = Scheme u \<and> (Scheme u = [] \<or> Scheme u = ''cs'' \<or> Scheme u = ''local'')
    \<and> IsValidName (Name r) \<and> (User r = [] \<or> IsValidUser E (User r))
    \<and> (Series r = [] \<or> IsValidSeries E (Series r))
    \<and> (Revision r = - 1 \<or> (\<exists>p. Atoi p = Some (Revision r)))
    \<and> User r \<in> set [[], x, y, z] \<and> Name r \<in> set [x, y, z] \<and> Series r \<in> set [[], x, y, z]"
  using assms(2) unfolding parseV3URL_def assms(1)
  by (auto simp: Let_def split: if_splits option.splits)

lemma parseV3URL_shape4:
  assumes "Split (Path u) CHR ''/'' = [x, y, z, w]" "parseV3URL E u = Inr r"
  shows "Schema r = Scheme u \<and> (Scheme u = [] \<or> Scheme u = ''cs'' \<or> Scheme u = ''local'')
    \<and> IsValidName (Name r) \<and> (User r = [] \<or> IsValidUser E (User r))
    \<and> (Series r = [] \<or> IsValidSeries E (Series r))
    \<and> (Revision r = - 1 \<or> (\<exists>p. Atoi p = Some (Revision r)))
    \<and> User r \<in> set [[], x, y, z, w] \<and> Name r \<in> set [x, y, z, w] \<and> Series r \<in> set [[], x, y, z, w]"
  using assms(2) unfolding parseV3URL_def assms(1)
  by (auto simp: Let_def split: if_splits option.splits)

subsection \<open>What the web grammar returns\<close>

lemma parseV2URL_result:
  assumes "parseV2URL E u = Inr r"
  shows "Schema r = ''cs''" "IsValidName (Name r)" "User r = [] \<or> IsValidUser E (User r)"
    "Series r = [] \<or> IsValidSeries E (Series r)"
    "Revision r = - 1 \<or> (\<exists>p. Atoi p = Some (Revision r))"
  using assms unfolding parseV2URL_def
  by (auto simp: Let_def split: if_splits option.splits sum.splits prod.splits)

lemma parseV2URL_members:
  assumes "parseV2URL E u = Inr r"
  shows "User r = [] \<or> User r \<in> set (Split (Trim (Path u) CHR ''/'') CHR ''/'')"
    "Series r = [] \<or> Series r \<in> set (Split (Trim (Path u) CHR ''/'') CHR ''/'')"
proof -
  define parts where "parts = Split (Trim (Path u) CHR ''/'') CHR ''/''"
  have d: "\<And>n xs. n < length (xs::string list) \<Longrightarrow> drop n xs ! 0 \<in> set xs"
    by (metis add.right_neutral less_or_eq_imp_le nth_drop nth_mem)
  have d1: "\<And>xs::string list. 0 < length (drop 1 xs) \<Longrightarrow> drop 1 xs ! 0 \<in> set xs"
    using d[of 1] by simp
  have d2: "\<And>xs::string list. 0 < length (drop 1 (drop 2 xs)) \<Longrightarrow> drop 1 (drop 2 xs) ! 0 \<in> set xs"
    using d[of 3] by simp
  from assms show "User r = [] \<or> User r \<in> set parts"
    unfolding parseV2URL_def parts_def[symmetric]
    by (auto simp: Let_def split: if_splits option.splits sum.splits prod.splits)
  from assms show "Series r = [] \<or> Series r \<in> set parts"
    unfolding parseV2URL_def parts_def[symmetric]
    by (auto simp: Let_def d1 d2 simp del: drop_drop split: if_splits option.splits sum.splits prod.splits)
qed

subsection \<open>The fields of a parsed URL\<close>

lemma parseV1URL_members1:
  assumes "Split (Path u) CHR ''/'' = [x]" "parseV1URL E u orig = Inr r"
  shows "User r \<in> set [[], drop 1 x] \<and> Series r \<in> set [[], x]"
  using assms(2) unfolding parseV1URL_def assms(1)
  by (auto simp: Let_def split: if_splits sum.splits prod.splits)

lemma parseV1URL_members2:
  assumes "Split (Path u) CHR ''/'' = [x, y]" "parseV1URL E u orig = Inr r"
  shows "User r \<in> set [[], drop 1 x] \<and> Series r \<in> set [[], x, y]"
  using assms(2) unfolding parseV1URL_def assms(1)
  by (auto simp: Let_def split: if_splits sum.splits prod.splits)

lemma parseV1URL_members3:
  assumes "Split (Path u) CHR ''/'' = [x, y, z]" "parseV1URL E u orig = Inr r"
  shows "User r \<in> set [[], drop 1 x] \<and> Series r \<in> set [[], x, y, z]"
  using assms(2) unfolding parseV1URL_def assms(1)
  by (auto simp: Let_def split: if_splits sum.splits prod.splits)

lemma parseV1URL_no_slash:
  assumes "parseV1URL E u orig = Inr r"
  shows "CHR ''/'' \<notin> set (User r) \<and> CHR ''/'' \<notin> set (Series r)"
proof -
  have ns: "\<And>p. p \<in> set (Split (Path u) CHR ''/'') \<Longrightarrow> CHR ''/'' \<notin> set p"
    by (rule Split_no_sep)
  have dr: "\<And>p. CHR ''/'' \<notin> set p \<Longrightarrow> CHR ''/'' \<notin> set (drop 1 p)"
    by (meson in_set_dropD)
  from list_shape_le4[OF parseV1URL_length[OF assms] Split_nonempty]
  consider (a) x where "Split (Path u) CHR ''/'' = [x]"
    | (b) x y where "Split (Path u) CHR ''/'' = [x, y]"
    | (c) x y z where "Split (Path u) CHR ''/'' = [x, y, z]"
    | (d) x y z w where "Split (Path u) CHR ''/'' = [x, y, z, w]"
    by blast
  then show ?thesis
  proof cases
    case a
    with ns[of x] dr[of x] parseV1URL_members1[OF a assms] show ?thesis by auto
  next
    case b
    with ns[of x] ns[of y] dr[of x] parseV1URL_members2[OF b assms] show ?thesis by auto
  next
    case c
    with ns[of x] ns[of y] ns[of z] dr[of x] parseV1URL_members3[OF c assms] show ?thesis by auto
  next
    case d
    then show ?thesis using parseV1URL_shape4[OF d, of E orig] assms by simp
  qed
qed

lemma no_sep_member:
  "f \<in> set ([] # ps) \<Longrightarrow> (\<And>p. p \<in> set ps \<Longrightarrow> c \<notin> set p) \<Longrightarrow> c \<notin> set f"
  by auto

lemma parseV3URL_fields:
  assumes "parseV3URL E u = Inr r"
  shows "Schema r = Scheme u \<and> (Scheme u = [] \<or> Scheme u = ''cs'' \<or> Scheme u = ''local'')
    \<and> IsValidName (Name r) \<and> (User r = [] \<or> IsValidUser E (User r))
    \<and> (Series r = [] \<or> IsValidSeries E (Series r))
    \<and> (Revision r = - 1 \<or> (\<exists>p. Atoi p = Some (Revision r)))
    \<and> CHR ''/'' \<notin> set (User r) \<and> CHR ''/'' \<notin> set (Series r)"
proof -
  let ?parts = "Split (Path u) CHR ''/''"
  have ns: "\<And>p. p \<in> set ?parts \<Longrightarrow> CHR ''/'' \<notin> set p"
    by (rule Split_no_sep)
  have main: "Schema r = Scheme u \<and> (Scheme u = [] \<or> Scheme u = ''cs'' \<or> Scheme u = ''local'')
    \<and> IsValidName (Name r) \<and> (User r = [] \<or> IsValidUser E (User r))
    \<and> (Series r = [] \<or> IsValidSeries E (Series r))
    \<and> (Revision r = - 1 \<or> (\<exists>p. Atoi p = Some (Revision r)))
    \<and> User r \<in> set ([] # ?parts) \<and> Name r \<in> set ?parts \<and> Series r \<in> set ([] # ?parts)"
  proof -
    from list_shape_le4[OF parseV3URL_length[OF assms] Split_nonempty]
    consider (a) x where "?parts = [x]"
      | (b) x y where "?parts = [x, y]"
      | (c) x y z where "?parts = [x, y, z]"
      | (d) x y z w where "?parts = [x, y, z, w]"
      by blast
    then show ?thesis
    proof cases
      case a
      show ?thesis unfolding a using parseV3URL_shape1[OF a assms] .
    next
      case b
      show ?thesis unfolding b using parseV3URL_shape2[OF b assms] .
    next
      case c
      show ?thesis unfolding c using parseV3URL_shape3[OF c assms] .
    next
      case d
      show ?thesis unfolding d using parseV3URL_shape4[OF d assms] .
    qed
  qed
  then have u: "User r \<in> set ([] # ?parts)" and s: "Series r \<in> set ([] # ?parts)" by blast+
  have "CHR ''/'' \<notin> set (User r)" by (rule no_sep_member[OF u ns])
  moreover have "CHR ''/'' \<notin> set (Series r)" by (rule no_sep_member[OF s ns])
  ultimately show ?thesis using main by blast
qed

lemma parseV2URL_no_slash:
  assumes "parseV2URL E u = Inr r"
  shows "CHR ''/'' \<notin> set (User r) \<and> CHR ''/'' \<notin> set (Series r)"
  using parseV2URL_members[OF assms] Split_no_sep[of _ "Trim (Path u) CHR ''/''" "CHR ''/''"]
  by auto

lemma ParseURL_origin:
  assumes "ParseURL E s = Inr r"
  shows "\<exists>r' u. r = defaultSchema r' \<and>
           (parseV1URL E u s = Inr r' \<or> parseV3URL E u = Inr r' \<or> parseV2URL E u = Inr r')"
proof -
  from assms obtain u where "url_Parse E s = Some u"
    by (auto simp: ParseURL_def split: option.splits)
  with assms obtain r' u' where r: "r = defaultSchema r'"
    and "parseNonWebURL E u' s = Inr r' \<or> parseV2URL E u' = Inr r'"
    by (auto simp: ParseURL_def split: if_splits sum.splits)
  then have "parseV1URL E u' s = Inr r' \<or> parseV3URL E u' = Inr r' \<or> parseV2URL E u' = Inr r'"
    by (auto simp: parseNonWebURL_def Let_def split: if_splits sum.splits)
  with r show ?thesis by blast
qed

lemma defaultSchema_fields:
  "User (defaultSchema r) = User r" "Name (defaultSchema r) = Name r"
  "Revision (defaultSchema r) = Revision r" "Series (defaultSchema r) = Series r"
  "Schema (defaultSchema r) = (if Schema r = [] then ''cs'' else Schema r)"
  by (simp_all add: defaultSchema_def)

lemma ParseURL_fields:
  assumes "ParseURL E s = Inr r"
  shows "(Schema r = ''cs'' \<or> Schema r = ''local'')
    \<and> IsValidName (Name r) \<and> (User r = [] \<or> IsValidUser E (User r))
    \<and> (Series r = [] \<or> IsValidSeries E (Series r))
    \<and> - (2 ^ 63) \<le> Revision r \<and> Revision r < 2 ^ 63
    \<and> CHR ''/'' \<notin> set (User r) \<and> CHR ''/'' \<notin> set (Series r)"
proof -
  from ParseURL_origin[OF assms] obtain r' u where r: "r = defaultSchema r'"
    and c: "parseV1URL E u s = Inr r' \<or> parseV3URL E u = Inr r' \<or> parseV2URL E u = Inr r'"
    by blast
  have rng: "\<And>p n. Atoi p = Some n \<Longrightarrow> - (2 ^ 63) \<le> n \<and> n < 2 ^ 63" by (rule Atoi_Some_range)
  from c have "(Schema r' = [] \<or> Schema r' = ''cs'' \<or> Schema r' = ''local'')
    \<and> IsValidName (Name r') \<and> (User r' = [] \<or> IsValidUser E (User r'))
    \<and> (Series r' = [] \<or> IsValidSeries E (Series r'))
    \<and> - (2 ^ 63) \<le> Revision r' \<and> Revision r' < 2 ^ 63
    \<and> CHR ''/'' \<notin> set (User r') \<and> CHR ''/'' \<notin> set (Series r')"
  proof (elim disjE)
    assume v1: "parseV1URL E u s = Inr r'"
    from parseV1URL_valid[OF v1] parseV1URL_series_user(1)[OF v1] parseV1URL_revision[OF v1]
      parseV1URL_no_slash[OF v1]
    show ?thesis by auto
  next
    assume v3: "parseV3URL E u = Inr r'"
    from parseV3URL_fields[OF v3] rng show ?thesis by fastforce
  next
    assume v2: "parseV2URL E u = Inr r'"
    from parseV2URL_result[OF v2] parseV2URL_no_slash[OF v2] rng show ?thesis by fastforce
  qed
  then show ?thesis unfolding r defaultSchema_fields by auto
qed

subsection \<open>Parsing what String renders\<close>

lemma in_set_Split:
  "c \<in> set s \<Longrightarrow> c = sep \<or> (\<exists>p\<in>set (Split s sep). c \<in> set p)"
proof (induction s)
  case Nil
  then show ?case by simp
next
  case (Cons a s)
  obtain q qs where q: "Split s sep = q # qs" using Split_nonempty by (cases "Split s sep") auto
  show ?case
  proof (cases "a = sep")
    case True
    with Cons show ?thesis by auto
  next
    case False
    with Cons q show ?thesis by auto
  qed
qed

lemma IsValidName_chars:
  assumes "IsValidName n" "c \<in> set n"
  shows "isLowerOrDigit c \<or> c = CHR ''-''"
proof -
  obtain p ps where sp: "Split n CHR ''-'' = p # ps"
    using Split_nonempty by (cases "Split n CHR ''-''") auto
  with assms(1) have fp: "firstPiece p" and lp: "list_all laterPiece ps"
    by (simp_all add: IsValidName_def)
  from fp have "list_all isLowerOrDigit p"
    by (cases p) (auto simp: firstPiece_def isLowerOrDigit_def)
  moreover from lp have "\<forall>q\<in>set ps. list_all isLowerOrDigit q"
    by (auto simp: list_all_iff laterPiece_def)
  ultimately have all: "\<forall>q\<in>set (Split n CHR ''-''). \<forall>x\<in>set q. isLowerOrDigit x"
    by (auto simp: sp list_all_iff)
  from in_set_Split[OF assms(2), of "CHR ''-''"] all show ?thesis by blast
qed

lemma IsValidName_no_slash: "IsValidName n \<Longrightarrow> CHR ''/'' \<notin> set n"
proof
  assume "IsValidName n" "CHR ''/'' \<in> set n"
  then have "isLowerOrDigit CHR ''/'' \<or> CHR ''/'' = CHR ''-''" by (rule IsValidName_chars)
  then show False by (simp add: isLowerOrDigit_def isLower_def isDigit_def)
qed

text \<open>
  \<^verbatim>\<open>parseV3URL\<close> on each of the eight lists of segments that \<^verbatim>\<open>String\<close> renders:
  an optional user, the name, an optional series, an optional revision.
\<close>

lemma parseV3URL_parts_n:
  fixes E :: env and u :: gourl
  assumes "Split (Path u) CHR ''/'' = [nm]"
    and ok: "\<not> (Scheme u \<noteq> [] \<and> Scheme u \<noteq> ''cs'' \<and> Scheme u \<noteq> ''local'')"
    and "Atoi nm = None" "\<not> IsValidSeries E nm" "IsValidName nm"
  shows "parseV3URL E u
           = Inr \<lparr>Schema = Scheme u, User = [], Name = nm, Revision = - 1, Series = []\<rparr>"
  unfolding parseV3URL_def assms(1) using assms(3-) by (simp add: ok Let_def)

lemma parseV3URL_parts_nd:
  fixes E :: env and u :: gourl
  assumes "Split (Path u) CHR ''/'' = [nm, d]"
    and ok: "\<not> (Scheme u \<noteq> [] \<and> Scheme u \<noteq> ''cs'' \<and> Scheme u \<noteq> ''local'')"
    and "Atoi d = Some rv" "\<not> IsValidSeries E nm" "IsValidName nm"
  shows "parseV3URL E u
           = Inr \<lparr>Schema = Scheme u, User = [], Name = nm, Revision = rv, Series = []\<rparr>"
  unfolding parseV3URL_def assms(1) using assms(3-) by (simp add: ok Let_def)

lemma parseV3URL_parts_ns:
  fixes E :: env and u :: gourl
  assumes "Split (Path u) CHR ''/'' = [nm, ser]"
    and ok: "\<not> (Scheme u \<noteq> [] \<and> Scheme u \<noteq> ''cs'' \<and> Scheme u \<noteq> ''local'')"
    and "Atoi ser = None" "IsValidSeries E ser" "IsValidName nm"
  shows "parseV3URL E u
           = Inr \<lparr>Schema = Scheme u, User = [], Name = nm, Revision = - 1, Series = ser\<rparr>"
  unfolding parseV3URL_def assms(1) using assms(3-) by (simp add: ok Let_def)

lemma parseV3URL_parts_nsd:
  fixes E :: env and u :: gourl
  assumes "Split (Path u) CHR ''/'' = [nm, ser, d]"
    and ok: "\<not> (Scheme u \<noteq> [] \<and> Scheme u \<noteq> ''cs'' \<and> Scheme u \<noteq> ''local'')"
    and "Atoi d = Some rv" "IsValidSeries E ser" "IsValidName nm"
  shows "parseV3URL E u
           = Inr \<lparr>Schema = Scheme u, User = [], Name = nm, Revision = rv, Series = ser\<rparr>"
  unfolding parseV3URL_def assms(1) using assms(3-) by (simp add: ok Let_def)

lemma parseV3URL_parts_un:
  fixes E :: env and u :: gourl
  assumes "Split (Path u) CHR ''/'' = [usr, nm]"
    and ok: "\<not> (Scheme u \<noteq> [] \<and> Scheme u \<noteq> ''cs'' \<and> Scheme u \<noteq> ''local'')"
    and "Atoi nm = None" "\<not> IsValidSeries E nm" "IsValidName nm" "IsValidUser E usr"
  shows "parseV3URL E u
           = Inr \<lparr>Schema = Scheme u, User = usr, Name = nm, Revision = - 1, Series = []\<rparr>"
  unfolding parseV3URL_def assms(1) using assms(3-) by (simp add: ok Let_def)

lemma parseV3URL_parts_und:
  fixes E :: env and u :: gourl
  assumes "Split (Path u) CHR ''/'' = [usr, nm, d]"
    and ok: "\<not> (Scheme u \<noteq> [] \<and> Scheme u \<noteq> ''cs'' \<and> Scheme u \<noteq> ''local'')"
    and "Atoi d = Some rv" "\<not> IsValidSeries E nm" "IsValidName nm" "IsValidUser E usr"
  shows "parseV3URL E u
           = Inr \<lparr>Schema = Scheme u, User = usr, Name = nm, Revision = rv, Series = []\<rparr>"
  unfolding parseV3URL_def assms(1) using assms(3-) by (simp add: ok Let_def)

lemma parseV3URL_parts_uns:
  fixes E :: env and u :: gourl
  assumes "Split (Path u) CHR ''/'' = [usr, nm, ser]"
    and ok: "\<not> (Scheme u \<noteq> [] \<and> Scheme u \<noteq> ''cs'' \<and> Scheme u \<noteq> ''local'')"
    and "Atoi ser = None" "IsValidSeries E ser" "IsValidName nm" "IsValidUser E usr"
  shows "parseV3URL E u
           = Inr \<lparr>Schema = Scheme u, User = usr, Name = nm, Revision = - 1, Series = ser\<rparr>"
  unfolding parseV3URL_def assms(1) using assms(3-) by (simp add: ok Let_def)

lemma parseV3URL_parts_unsd:
  fixes E :: env and u :: gourl
  assumes "Split (Path u) CHR ''/'' = [usr, nm, ser, d]"
    and ok: "\<not> (Scheme u \<noteq> [] \<and> Scheme u \<noteq> ''cs'' \<and> Scheme u \<noteq> ''local'')"
    and "Atoi d = Some rv" "IsValidSeries E ser" "IsValidName nm" "IsValidUser E usr"
  shows "parseV3URL E u
           = Inr \<lparr>Schema = Scheme u, User = usr, Name = nm, Revision = rv, Series = ser\<rparr>"
  unfolding parseV3URL_def assms(1) using assms(3-) by (simp add: ok Let_def)

lemma parseV3URL_rendered:
  fixes E :: env and u :: gourl
  assumes sch: "Scheme u = ''cs'' \<or> Scheme u = ''local''"
    and path: "Path u = Join (String_parts r) CHR ''/''"
    and name: "IsValidName (Name r)" "Series r = [] \<longrightarrow> \<not> IsValidSeries E (Name r)"
    and user: "User r = [] \<or> (IsValidUser E (User r) \<and> CHR ''/'' \<notin> set (User r))"
    and series: "Series r = [] \<or>
        (IsValidSeries E (Series r) \<and> Atoi (Series r) = None \<and> CHR ''/'' \<notin> set (Series r))"
    and rev: "- 1 \<le> Revision r" "Revision r < 2 ^ 63"
  shows "parseV3URL E u = Inr (r\<lparr>Schema := Scheme u\<rparr>)"
proof -
  obtain a usr nm rv ser where r: "r = \<lparr>Schema = a, User = usr, Name = nm, Revision = rv, Series = ser\<rparr>"
    by (cases r) auto
  have ok: "\<not> (Scheme u \<noteq> [] \<and> Scheme u \<noteq> ''cs'' \<and> Scheme u \<noteq> ''local'')"
    using sch by auto
  have an: "Atoi nm = None" using name(1) by (simp add: r Atoi_IsValidName)
  have nn: "CHR ''/'' \<notin> set nm" using name(1) by (simp add: r IsValidName_no_slash)
  have nv: "IsValidName nm" and nser': "ser = [] \<longrightarrow> \<not> IsValidSeries E nm"
    using name by (simp_all add: r)
  have uu: "usr = [] \<or> (IsValidUser E usr \<and> CHR ''/'' \<notin> set usr)" using user by (simp add: r)
  have ss: "ser = [] \<or> (IsValidSeries E ser \<and> Atoi ser = None \<and> CHR ''/'' \<notin> set ser)"
    using series by (simp add: r)
  have rr: "rv = - 1 \<or> (0 \<le> rv \<and> Atoi (formatDecimal rv) = Some rv \<and> CHR ''/'' \<notin> set (formatDecimal rv))"
    using rev by (auto simp: r Atoi_formatDecimal formatDecimal_no_slash)
  have ne: "String_parts r \<noteq> []" by (simp add: String_parts_def)
  have fr: "\<forall>p\<in>set (String_parts r). CHR ''/'' \<notin> set p"
    using nn uu ss rr by (auto simp: String_parts_def r)
  have sp: "Split (Path u) CHR ''/'' = String_parts r"
    unfolding path by (rule Split_Join[OF ne fr])
  have goal: "r\<lparr>Schema := Scheme u\<rparr>
      = \<lparr>Schema = Scheme u, User = usr, Name = nm, Revision = rv, Series = ser\<rparr>"
    by (simp add: r)
  show ?thesis
  proof (cases "usr = []")
    case nouser: True
    show ?thesis
    proof (cases "ser = []")
      case noseries: True
      with nser' have nser: "\<not> IsValidSeries E nm" by simp
      show ?thesis
      proof (cases "0 \<le> rv")
        case True
        with rr have at: "Atoi (formatDecimal rv) = Some rv" by auto
        have "Split (Path u) CHR ''/'' = [nm, formatDecimal rv]"
          using True nouser noseries by (simp add: sp String_parts_def r)
        from parseV3URL_parts_nd[OF this ok at nser nv] show ?thesis
          unfolding goal using nouser noseries by simp
      next
        case False
        with rr have m: "rv = - 1" by auto
        have "Split (Path u) CHR ''/'' = [nm]"
          using m nouser noseries by (simp add: sp String_parts_def r)
        from parseV3URL_parts_n[OF this ok an nser nv] show ?thesis
          unfolding goal using nouser noseries m by simp
      qed
    next
      case False
      with ss have s: "IsValidSeries E ser" "Atoi ser = None" by auto
      show ?thesis
      proof (cases "0 \<le> rv")
        case True
        with rr have at: "Atoi (formatDecimal rv) = Some rv" by auto
        have "Split (Path u) CHR ''/'' = [nm, ser, formatDecimal rv]"
          using True nouser False by (simp add: sp String_parts_def r)
        from parseV3URL_parts_nsd[OF this ok at s(1) nv] show ?thesis
          unfolding goal using nouser by simp
      next
        case nr: False
        with rr have m: "rv = - 1" by auto
        have "Split (Path u) CHR ''/'' = [nm, ser]"
          using m nouser False by (simp add: sp String_parts_def r)
        from parseV3URL_parts_ns[OF this ok s(2) s(1) nv] show ?thesis
          unfolding goal using nouser m by simp
      qed
    qed
  next
    case False
    with uu have uv: "IsValidUser E usr" by auto
    show ?thesis
    proof (cases "ser = []")
      case noseries: True
      with nser' have nser: "\<not> IsValidSeries E nm" by simp
      show ?thesis
      proof (cases "0 \<le> rv")
        case True
        with rr have at: "Atoi (formatDecimal rv) = Some rv" by auto
        have "Split (Path u) CHR ''/'' = [usr, nm, formatDecimal rv]"
          using True False noseries by (simp add: sp String_parts_def r)
        from parseV3URL_parts_und[OF this ok at nser nv uv] show ?thesis
          unfolding goal using noseries by simp
      next
        case nr: False
        with rr have m: "rv = - 1" by auto
        have "Split (Path u) CHR ''/'' = [usr, nm]"
          using m False noseries by (simp add: sp String_parts_def r)
        from parseV3URL_parts_un[OF this ok an nser nv uv] show ?thesis
          unfolding goal using noseries m by simp
      qed
    next
      case hasseries: False
      with ss have s: "IsValidSeries E ser" "Atoi ser = None" by auto
      show ?thesis
      proof (cases "0 \<le> rv")
        case True
        with rr have at: "Atoi (formatDecimal rv) = Some rv" by auto
        have "Split (Path u) CHR ''/'' = [usr, nm, ser, formatDecimal rv]"
          using True False hasseries by (simp add: sp String_parts_def r)
        from parseV3URL_parts_unsd[OF this ok at s(1) nv uv] show ?thesis
          unfolding goal by simp
      next
        case nr: False
        with rr have m: "rv = - 1" by auto
        have "Split (Path u) CHR ''/'' = [usr, nm, ser]"
          using m False hasseries by (simp add: sp String_parts_def r)
        from parseV3URL_parts_uns[OF this ok s(2) s(1) nv uv] show ?thesis
          unfolding goal using m by simp
      qed
    qed
  qed
qed

subsection \<open>Parsing the canonical rendering\<close>

lemma String_parts_hd:
  "String_parts r ! 0 = (if User r \<noteq> [] then User r else Name r)"
  by (simp add: String_parts_def)

lemma Name_in_String_parts: "Name r \<in> set (String_parts r)"
  by (simp add: String_parts_def)

lemma ParseURL_rendered:
  fixes E :: env
  assumes render: "url_Parse E (URL_String r)
                    = Some (opaqueURL (Schema r) (Join (String_parts r) CHR ''/''))"
    and sch: "Schema r = ''cs'' \<or> Schema r = ''local''"
    and name: "IsValidName (Name r)"
      "User r = [] \<or> Series r = [] \<longrightarrow> \<not> IsValidSeries E (Name r)"
    and user: "User r = [] \<or>
        (IsValidUser E (User r) \<and> CHR ''/'' \<notin> set (User r) \<and> \<not> IsValidSeries E (User r))"
    and series: "Series r = [] \<or>
        (IsValidSeries E (Series r) \<and> Atoi (Series r) = None \<and> CHR ''/'' \<notin> set (Series r))"
    and rev: "- 1 \<le> Revision r" "Revision r < 2 ^ 63"
  shows "ParseURL E (URL_String r) = Inr r"
proof -
  let ?path = "Join (String_parts r) CHR ''/''"
  let ?u = "(opaqueURL (Schema r) ?path)\<lparr>Path := ?path\<rparr>"
  have scheme: "Scheme ?u = Schema r" and path: "Path ?u = ?path" by (simp_all add: opaqueURL_def)
  have user': "User r = [] \<or> (IsValidUser E (User r) \<and> CHR ''/'' \<notin> set (User r))"
    using user by blast
  have name': "Series r = [] \<longrightarrow> \<not> IsValidSeries E (Name r)"
    using name(2) by blast
  have v3: "parseV3URL E ?u = Inr (r\<lparr>Schema := Scheme ?u\<rparr>)"
    by (rule parseV3URL_rendered[OF _ path name(1) name' user' series rev]) (simp add: scheme sch)
  then have v3': "parseV3URL E ?u = Inr r" by (simp add: scheme)
  have ne: "String_parts r \<noteq> []" by (simp add: String_parts_def)
  have fr: "\<forall>p\<in>set (String_parts r). CHR ''/'' \<notin> set p"
    using IsValidName_no_slash[OF name(1)] user series rev formatDecimal_no_slash[of "Revision r"]
    by (auto simp: String_parts_def)
  have sp: "Split ?path CHR ''/'' = String_parts r" by (rule Split_Join[OF ne fr])
  have first: "\<not> IsValidSeries E (Split (Path ?u) CHR ''/'' ! 0)"
    unfolding path sp String_parts_hd using name(2) user by auto
  have nonempty: "?path \<noteq> []"
  proof
    assume "?path = []"
    with sp have "String_parts r = [[]]" by simp
    with Name_in_String_parts[of r] have "Name r = []" by simp
    with IsValidName_hd[OF name(1)] show False by simp
  qed
  have "ParseURL E (URL_String r) = map_sum id defaultSchema (parseNonWebURL E ?u (URL_String r))"
    by (rule ParseURL_opaque[OF render nonempty])
  also have "parseNonWebURL E ?u (URL_String r) = Inr r"
    by (rule parseNonWebURL_cases(2)[OF first v3'])
  also have "map_sum id defaultSchema (Inr r) = Inr r"
    using sch by (auto simp: defaultSchema_def)
  finally show ?thesis .
qed

text \<open>
  Claim C2, as the code has it. Let \<open>r\<close> be a URL that \<^verbatim>\<open>ParseURL\<close> returned, whose
  user is not the name of a series, whose name is not the name of a series when \<open>r\<close>
  has no user or no series, whose series does not read as a number, and whose revision is
  not below \<open>-1\<close>. If \<^verbatim>\<open>net/url.Parse\<close> reads \<^verbatim>\<open>r.String()\<close> as
  the schema of \<open>r\<close> and an opaque rest, then \<^verbatim>\<open>ParseURL(r.String())\<close> succeeds and
  returns \<open>r\<close>, all five fields.
\<close>

theorem ParseURL_String_round_trip:
  fixes E :: env
  assumes parsed: "ParseURL E s = Inr r"
    and render: "url_Parse E (URL_String r)
                  = Some (opaqueURL (Schema r) (Join (String_parts r) CHR ''/''))"
    and rev: "- 1 \<le> Revision r"
    and name: "User r = [] \<or> Series r = [] \<longrightarrow> \<not> IsValidSeries E (Name r)"
    and user: "User r \<noteq> [] \<longrightarrow> \<not> IsValidSeries E (User r)"
    and series: "Series r \<noteq> [] \<longrightarrow> Atoi (Series r) = None"
  shows "ParseURL E (URL_String r) = Inr r"
proof -
  from ParseURL_fields[OF parsed]
  have sch: "Schema r = ''cs'' \<or> Schema r = ''local''"
    and vn: "IsValidName (Name r)"
    and vu: "User r = [] \<or> IsValidUser E (User r)"
    and vs: "Series r = [] \<or> IsValidSeries E (Series r)"
    and hi: "Revision r < 2 ^ 63"
    and su: "CHR ''/'' \<notin> set (User r)" and ss: "CHR ''/'' \<notin> set (Series r)"
    by blast+
  have u: "User r = [] \<or>
        (IsValidUser E (User r) \<and> CHR ''/'' \<notin> set (User r) \<and> \<not> IsValidSeries E (User r))"
    using vu su user by blast
  have se: "Series r = [] \<or>
        (IsValidSeries E (Series r) \<and> Atoi (Series r) = None \<and> CHR ''/'' \<notin> set (Series r))"
    using vs ss series by blast
  show ?thesis by (rule ParseURL_rendered[OF render sch vn name u se rev hi])
qed

theorem ParseURL_String_round_trip_witness:
  "ParseURL sampleEnv ''cs:~user/wily/name-0''
     = Inr \<lparr>Schema = ''cs'', User = ''user'', Name = ''name'', Revision = 0, Series = ''wily''\<rparr>
   \<and> URL_String \<lparr>Schema = ''cs'', User = ''user'', Name = ''name'', Revision = 0, Series = ''wily''\<rparr>
     = ''cs:user/name/wily/0''
   \<and> ParseURL sampleEnv ''cs:user/name/wily/0''
     = Inr \<lparr>Schema = ''cs'', User = ''user'', Name = ''name'', Revision = 0, Series = ''wily''\<rparr>"
proof -
  let ?r = "\<lparr>Schema = ''cs'', User = ''user'', Name = ''name'', Revision = 0, Series = ''wily''\<rparr>"
  have parsed: "ParseURL sampleEnv ''cs:~user/wily/name-0'' = Inr ?r" by code_simp
  have str: "URL_String ?r = ''cs:user/name/wily/0''" by code_simp
  have render: "url_Parse sampleEnv (URL_String ?r)
                  = Some (opaqueURL (Schema ?r) (Join (String_parts ?r) CHR ''/''))" by code_simp
  have rev: "- 1 \<le> Revision ?r" by simp
  have name: "User ?r = [] \<or> Series ?r = [] \<longrightarrow> \<not> IsValidSeries sampleEnv (Name ?r)"
    by code_simp
  have user: "User ?r \<noteq> [] \<longrightarrow> \<not> IsValidSeries sampleEnv (User ?r)" by code_simp
  have series: "Series ?r \<noteq> [] \<longrightarrow> Atoi (Series ?r) = None" by code_simp
  have "ParseURL sampleEnv (URL_String ?r) = Inr ?r"
    by (rule ParseURL_String_round_trip[OF parsed render rev name user series])
  with parsed str show ?thesis by simp
qed

theorem ParseURL_String_round_trip_counterexample:
  "ParseURL sampleEnv ''cs:~joe/bundle''
     = Inr \<lparr>Schema = ''cs'', User = ''joe'', Name = ''bundle'', Revision = - 1, Series = []\<rparr>
   \<and> URL_String \<lparr>Schema = ''cs'', User = ''joe'', Name = ''bundle'', Revision = - 1, Series = []\<rparr>
     = ''cs:joe/bundle''
   \<and> ParseURL sampleEnv ''cs:joe/bundle''
     = Inr \<lparr>Schema = ''cs'', User = [], Name = ''joe'', Revision = - 1, Series = ''bundle''\<rparr>
   \<and> ParseURL sampleEnv
        (URL_String \<lparr>Schema = ''cs'', User = ''joe'', Name = ''bundle'', Revision = - 1, Series = []\<rparr>)
     \<noteq> Inr \<lparr>Schema = ''cs'', User = ''joe'', Name = ''bundle'', Revision = - 1, Series = []\<rparr>"
  by code_simp

subsection \<open>The web grammar after the name\<close>

lemma parseV2URL_series_no_user:
  fixes E :: env and u :: gourl
  assumes "Split (Trim (Path u) CHR ''/'') CHR ''/'' = name # s # rest"
    and "name \<noteq> ''u''" "Atoi s = None"
  shows "parseV2URL E u =
     (if \<not> IsValidSeries E s then Inl InvalidSeries
      else if length rest = 1 then
        (case Atoi (rest ! 0) of
           None \<Rightarrow> Inl MalformedRevision
         | Some revision \<Rightarrow>
             if \<not> IsValidName name then Inl InvalidName
             else Inr \<lparr>Schema = ''cs'', User = [], Name = name, Revision = revision, Series = s\<rparr>)
      else if rest \<noteq> [] then Inl InvalidForm
      else if \<not> IsValidName name then Inl InvalidName
      else Inr \<lparr>Schema = ''cs'', User = [], Name = name, Revision = - 1, Series = s\<rparr>)"
  unfolding parseV2URL_def assms(1) using assms(2,3)
  by (simp add: Let_def split: option.splits)

lemma parseV2URL_series_user:
  fixes E :: env and u :: gourl
  assumes "Split (Trim (Path u) CHR ''/'') CHR ''/'' = ''u'' # usr # name # s # rest"
    and "Atoi s = None"
  shows "parseV2URL E u =
     (if \<not> IsValidSeries E s then Inl InvalidSeries
      else if length rest = 1 then
        (case Atoi (rest ! 0) of
           None \<Rightarrow> Inl MalformedRevision
         | Some revision \<Rightarrow>
             if usr \<noteq> [] \<and> \<not> IsValidUser E usr then Inl InvalidUserName
             else if \<not> IsValidName name then Inl InvalidName
             else Inr \<lparr>Schema = ''cs'', User = usr, Name = name, Revision = revision, Series = s\<rparr>)
      else if rest \<noteq> [] then Inl InvalidForm
      else if usr \<noteq> [] \<and> \<not> IsValidUser E usr then Inl InvalidUserName
      else if \<not> IsValidName name then Inl InvalidName
      else Inr \<lparr>Schema = ''cs'', User = usr, Name = name, Revision = - 1, Series = s\<rparr>)"
  unfolding parseV2URL_def assms(1) using assms(2)
  by (simp add: Let_def split: option.splits)

lemma parseV2URL_extra_segment:
  assumes "IsValidSeries E ''trusty''"
  shows "parseV2URL E (hostURL sch h ''/u/alice/foo/trusty/3/extra'') = Inl InvalidForm"
proof -
  have sp: "Split (Trim (Path (hostURL sch h ''/u/alice/foo/trusty/3/extra'')) CHR ''/'') CHR ''/''
     = ''u'' # ''alice'' # ''foo'' # ''trusty'' # [''3'', ''extra'']"
    by (simp add: hostURL_def Trim_def)
  have a: "Atoi ''trusty'' = None" by code_simp
  show ?thesis using assms by (simp add: parseV2URL_series_user[OF sp a])
qed

lemma parseV2URL_bad_revision:
  assumes "IsValidSeries E ''trusty''"
  shows "parseV2URL E (hostURL sch h ''/foo/trusty/bar'') = Inl MalformedRevision"
proof -
  have sp: "Split (Trim (Path (hostURL sch h ''/foo/trusty/bar'')) CHR ''/'') CHR ''/''
     = ''foo'' # ''trusty'' # [''bar'']"
    by (simp add: hostURL_def Trim_def)
  have a: "Atoi ''trusty'' = None" "Atoi ''bar'' = None" by code_simp+
  show ?thesis using assms a(2) by (simp add: parseV2URL_series_no_user[OF sp _ a(1)])
qed

text \<open>
  Claim C6, as the code has it. In the web grammar, after the optional
  \<^verbatim>\<open>/u/<user>/\<close> prefix and the name, a segment that is not an integer is the series
  and must be a valid one (the error for an invalid series otherwise). After the series,
  no further segment leaves the revision unset, exactly one further segment must be an
  integer and is the revision (the error for a malformed revision otherwise), and two or
  more further segments fail with the error for an invalid form: so does
  \<^verbatim>\<open>"https://host/u/alice/foo/trusty/3/extra"\<close>. User and name are validated last.
\<close>

theorem web_grammar_after_series:
  "(\<forall>(E::env) (u::gourl) name s rest.
      Split (Trim (Path u) CHR ''/'') CHR ''/'' = name # s # rest \<and> name \<noteq> ''u'' \<and> Atoi s = None
      \<longrightarrow> parseV2URL E u =
         (if \<not> IsValidSeries E s then Inl InvalidSeries
          else if length rest = 1 then
            (case Atoi (rest ! 0) of
               None \<Rightarrow> Inl MalformedRevision
             | Some revision \<Rightarrow>
                 if \<not> IsValidName name then Inl InvalidName
                 else Inr \<lparr>Schema = ''cs'', User = [], Name = name, Revision = revision, Series = s\<rparr>)
          else if rest \<noteq> [] then Inl InvalidForm
          else if \<not> IsValidName name then Inl InvalidName
          else Inr \<lparr>Schema = ''cs'', User = [], Name = name, Revision = - 1, Series = s\<rparr>))
   \<and> (\<forall>(E::env) (u::gourl) usr name s rest.
      Split (Trim (Path u) CHR ''/'') CHR ''/'' = ''u'' # usr # name # s # rest \<and> Atoi s = None
      \<longrightarrow> parseV2URL E u =
         (if \<not> IsValidSeries E s then Inl InvalidSeries
          else if length rest = 1 then
            (case Atoi (rest ! 0) of
               None \<Rightarrow> Inl MalformedRevision
             | Some revision \<Rightarrow>
                 if usr \<noteq> [] \<and> \<not> IsValidUser E usr then Inl InvalidUserName
                 else if \<not> IsValidName name then Inl InvalidName
                 else Inr \<lparr>Schema = ''cs'', User = usr, Name = name, Revision = revision, Series = s\<rparr>)
          else if rest \<noteq> [] then Inl InvalidForm
          else if usr \<noteq> [] \<and> \<not> IsValidUser E usr then Inl InvalidUserName
          else if \<not> IsValidName name then Inl InvalidName
          else Inr \<lparr>Schema = ''cs'', User = usr, Name = name, Revision = - 1, Series = s\<rparr>))
   \<and> (\<forall>E::env. url_Parse E ''https://host/u/alice/foo/trusty/3/extra''
                   = Some (hostURL ''https'' ''host'' ''/u/alice/foo/trusty/3/extra'')
               \<and> ''trusty'' \<in> set (SupportedSeries E)
      \<longrightarrow> ParseURL E ''https://host/u/alice/foo/trusty/3/extra'' = Inl InvalidForm)
   \<and> (\<forall>E::env. url_Parse E ''https://host/foo/trusty/bar''
                   = Some (hostURL ''https'' ''host'' ''/foo/trusty/bar'')
               \<and> ''trusty'' \<in> set (SupportedSeries E)
      \<longrightarrow> ParseURL E ''https://host/foo/trusty/bar'' = Inl MalformedRevision)"
proof (intro conjI allI impI)
  fix E :: env and u :: gourl and name s rest
  assume h: "Split (Trim (Path u) CHR ''/'') CHR ''/'' = name # s # rest \<and> name \<noteq> ''u'' \<and> Atoi s = None"
  then have h1: "Split (Trim (Path u) CHR ''/'') CHR ''/'' = name # s # rest"
    and h2: "name \<noteq> ''u''" and h3: "Atoi s = None" by simp_all
  show "parseV2URL E u =
         (if \<not> IsValidSeries E s then Inl InvalidSeries
          else if length rest = 1 then
            (case Atoi (rest ! 0) of
               None \<Rightarrow> Inl MalformedRevision
             | Some revision \<Rightarrow>
                 if \<not> IsValidName name then Inl InvalidName
                 else Inr \<lparr>Schema = ''cs'', User = [], Name = name, Revision = revision, Series = s\<rparr>)
          else if rest \<noteq> [] then Inl InvalidForm
          else if \<not> IsValidName name then Inl InvalidName
          else Inr \<lparr>Schema = ''cs'', User = [], Name = name, Revision = - 1, Series = s\<rparr>)"
    by (rule parseV2URL_series_no_user[OF h1 h2 h3])
next
  fix E :: env and u :: gourl and usr name s rest
  assume h: "Split (Trim (Path u) CHR ''/'') CHR ''/'' = ''u'' # usr # name # s # rest \<and> Atoi s = None"
  then have h1: "Split (Trim (Path u) CHR ''/'') CHR ''/'' = ''u'' # usr # name # s # rest"
    and h2: "Atoi s = None" by simp_all
  show "parseV2URL E u =
         (if \<not> IsValidSeries E s then Inl InvalidSeries
          else if length rest = 1 then
            (case Atoi (rest ! 0) of
               None \<Rightarrow> Inl MalformedRevision
             | Some revision \<Rightarrow>
                 if usr \<noteq> [] \<and> \<not> IsValidUser E usr then Inl InvalidUserName
                 else if \<not> IsValidName name then Inl InvalidName
                 else Inr \<lparr>Schema = ''cs'', User = usr, Name = name, Revision = revision, Series = s\<rparr>)
          else if rest \<noteq> [] then Inl InvalidForm
          else if usr \<noteq> [] \<and> \<not> IsValidUser E usr then Inl InvalidUserName
          else if \<not> IsValidName name then Inl InvalidName
          else Inr \<lparr>Schema = ''cs'', User = usr, Name = name, Revision = - 1, Series = s\<rparr>)"
    by (rule parseV2URL_series_user[OF h1 h2])
next
  fix E :: env
  assume h: "url_Parse E ''https://host/u/alice/foo/trusty/3/extra''
                   = Some (hostURL ''https'' ''host'' ''/u/alice/foo/trusty/3/extra'')
               \<and> ''trusty'' \<in> set (SupportedSeries E)"
  then have p: "url_Parse E ''https://host/u/alice/foo/trusty/3/extra''
                   = Some (hostURL ''https'' ''host'' ''/u/alice/foo/trusty/3/extra'')"
    and s: "IsValidSeries E ''trusty''" by (simp_all add: IsValidSeries_supported)
  have "ParseURL E ''https://host/u/alice/foo/trusty/3/extra''
      = map_sum id defaultSchema (parseV2URL E (hostURL ''https'' ''host'' ''/u/alice/foo/trusty/3/extra''))"
    by (rule ParseURL_host[OF p]) simp
  then show "ParseURL E ''https://host/u/alice/foo/trusty/3/extra'' = Inl InvalidForm"
    by (simp add: parseV2URL_extra_segment[OF s])
next
  fix E :: env
  assume h: "url_Parse E ''https://host/foo/trusty/bar''
                   = Some (hostURL ''https'' ''host'' ''/foo/trusty/bar'')
               \<and> ''trusty'' \<in> set (SupportedSeries E)"
  then have p: "url_Parse E ''https://host/foo/trusty/bar''
                   = Some (hostURL ''https'' ''host'' ''/foo/trusty/bar'')"
    and s: "IsValidSeries E ''trusty''" by (simp_all add: IsValidSeries_supported)
  have "ParseURL E ''https://host/foo/trusty/bar''
      = map_sum id defaultSchema (parseV2URL E (hostURL ''https'' ''host'' ''/foo/trusty/bar''))"
    by (rule ParseURL_host[OF p]) simp
  then show "ParseURL E ''https://host/foo/trusty/bar'' = Inl MalformedRevision"
    by (simp add: parseV2URL_bad_revision[OF s])
qed

theorem web_grammar_after_series_witness:
  "parseV2URL sampleEnv (hostURL ''https'' ''host'' ''/name/vivid/7'')
     = Inr \<lparr>Schema = ''cs'', User = [], Name = ''name'', Revision = 7, Series = ''vivid''\<rparr>
   \<and> parseV2URL sampleEnv (hostURL ''https'' ''host'' ''/u/joe/name/badwolf/42'') = Inl InvalidSeries
   \<and> ParseURL sampleEnv ''https://host/u/alice/foo/trusty/3/extra'' = Inl InvalidForm
   \<and> ParseURL sampleEnv ''https://host/foo/trusty/bar'' = Inl MalformedRevision"
proof -
  note T = web_grammar_after_series
  let ?u1 = "hostURL ''https'' ''host'' ''/name/vivid/7''"
  have h1: "Split (Trim (Path ?u1) CHR ''/'') CHR ''/'' = ''name'' # ''vivid'' # [''7'']
            \<and> ''name'' \<noteq> ''u'' \<and> Atoi ''vivid'' = None" by code_simp
  have e1: "(if \<not> IsValidSeries sampleEnv ''vivid'' then Inl InvalidSeries
          else if length [''7''] = 1 then
            (case Atoi ([''7''] ! 0) of
               None \<Rightarrow> Inl MalformedRevision
             | Some revision \<Rightarrow>
                 if \<not> IsValidName ''name'' then Inl InvalidName
                 else Inr \<lparr>Schema = ''cs'', User = [], Name = ''name'', Revision = revision, Series = ''vivid''\<rparr>)
          else if [''7''] \<noteq> [] then Inl InvalidForm
          else if \<not> IsValidName ''name'' then Inl InvalidName
          else Inr \<lparr>Schema = ''cs'', User = [], Name = ''name'', Revision = - 1, Series = ''vivid''\<rparr>)
        = Inr \<lparr>Schema = ''cs'', User = [], Name = ''name'', Revision = 7, Series = ''vivid''\<rparr>"
    by code_simp
  from T h1 have "parseV2URL sampleEnv ?u1 =
         (if \<not> IsValidSeries sampleEnv ''vivid'' then Inl InvalidSeries
          else if length [''7''] = 1 then
            (case Atoi ([''7''] ! 0) of
               None \<Rightarrow> Inl MalformedRevision
             | Some revision \<Rightarrow>
                 if \<not> IsValidName ''name'' then Inl InvalidName
                 else Inr \<lparr>Schema = ''cs'', User = [], Name = ''name'', Revision = revision, Series = ''vivid''\<rparr>)
          else if [''7''] \<noteq> [] then Inl InvalidForm
          else if \<not> IsValidName ''name'' then Inl InvalidName
          else Inr \<lparr>Schema = ''cs'', User = [], Name = ''name'', Revision = - 1, Series = ''vivid''\<rparr>)"
    by blast
  from this e1 have c1: "parseV2URL sampleEnv ?u1
     = Inr \<lparr>Schema = ''cs'', User = [], Name = ''name'', Revision = 7, Series = ''vivid''\<rparr>"
    by (rule trans)
  let ?u2 = "hostURL ''https'' ''host'' ''/u/joe/name/badwolf/42''"
  have h2: "Split (Trim (Path ?u2) CHR ''/'') CHR ''/'' = ''u'' # ''joe'' # ''name'' # ''badwolf'' # [''42'']
            \<and> Atoi ''badwolf'' = None" by code_simp
  have e2: "(if \<not> IsValidSeries sampleEnv ''badwolf'' then Inl InvalidSeries
          else if length [''42''] = 1 then
            (case Atoi ([''42''] ! 0) of
               None \<Rightarrow> Inl MalformedRevision
             | Some revision \<Rightarrow>
                 if ''joe'' \<noteq> [] \<and> \<not> IsValidUser sampleEnv ''joe'' then Inl InvalidUserName
                 else if \<not> IsValidName ''name'' then Inl InvalidName
                 else Inr \<lparr>Schema = ''cs'', User = ''joe'', Name = ''name'', Revision = revision, Series = ''badwolf''\<rparr>)
          else if [''42''] \<noteq> [] then Inl InvalidForm
          else if ''joe'' \<noteq> [] \<and> \<not> IsValidUser sampleEnv ''joe'' then Inl InvalidUserName
          else if \<not> IsValidName ''name'' then Inl InvalidName
          else Inr \<lparr>Schema = ''cs'', User = ''joe'', Name = ''name'', Revision = - 1, Series = ''badwolf''\<rparr>)
        = Inl InvalidSeries"
    by code_simp
  from T h2 have "parseV2URL sampleEnv ?u2 =
         (if \<not> IsValidSeries sampleEnv ''badwolf'' then Inl InvalidSeries
          else if length [''42''] = 1 then
            (case Atoi ([''42''] ! 0) of
               None \<Rightarrow> Inl MalformedRevision
             | Some revision \<Rightarrow>
                 if ''joe'' \<noteq> [] \<and> \<not> IsValidUser sampleEnv ''joe'' then Inl InvalidUserName
                 else if \<not> IsValidName ''name'' then Inl InvalidName
                 else Inr \<lparr>Schema = ''cs'', User = ''joe'', Name = ''name'', Revision = revision, Series = ''badwolf''\<rparr>)
          else if [''42''] \<noteq> [] then Inl InvalidForm
          else if ''joe'' \<noteq> [] \<and> \<not> IsValidUser sampleEnv ''joe'' then Inl InvalidUserName
          else if \<not> IsValidName ''name'' then Inl InvalidName
          else Inr \<lparr>Schema = ''cs'', User = ''joe'', Name = ''name'', Revision = - 1, Series = ''badwolf''\<rparr>)"
    by blast
  from this e2 have c2: "parseV2URL sampleEnv ?u2 = Inl InvalidSeries" by (rule trans)
  have h3: "url_Parse sampleEnv ''https://host/u/alice/foo/trusty/3/extra''
                   = Some (hostURL ''https'' ''host'' ''/u/alice/foo/trusty/3/extra'')
               \<and> ''trusty'' \<in> set (SupportedSeries sampleEnv)" by code_simp
  from T h3 have c3: "ParseURL sampleEnv ''https://host/u/alice/foo/trusty/3/extra'' = Inl InvalidForm"
    by blast
  have h4: "url_Parse sampleEnv ''https://host/foo/trusty/bar''
                   = Some (hostURL ''https'' ''host'' ''/foo/trusty/bar'')
               \<and> ''trusty'' \<in> set (SupportedSeries sampleEnv)" by code_simp
  from T h4 have c4: "ParseURL sampleEnv ''https://host/foo/trusty/bar'' = Inl MalformedRevision"
    by blast
  from c1 c2 c3 c4 show ?thesis by blast
qed

theorem web_grammar_leftover_counterexample:
  "ParseURL sampleEnv ''https://host/u/alice/foo/trusty/3/extra'' = Inl InvalidForm
   \<and> ParseURL sampleEnv ''https://host/u/alice/foo/trusty/3/extra'' \<noteq> Inl UnrecognizedParts
   \<and> ParseURL sampleEnv ''https://host/foo/trusty/bar/baz'' = Inl InvalidForm
   \<and> ParseURL sampleEnv ''https://host/foo/trusty/bar/baz'' \<noteq> Inl MalformedRevision"
  by code_simp

subsection \<open>The web grammar on the segments that String renders\<close>

lemma parseV2URL_parts_n:
  fixes E :: env and u :: gourl
  assumes "Split (Trim (Path u) CHR ''/'') CHR ''/'' = [nm]" "nm \<noteq> ''u''" "IsValidName nm"
  shows "parseV2URL E u = Inr \<lparr>Schema = ''cs'', User = [], Name = nm, Revision = - 1, Series = []\<rparr>"
  unfolding parseV2URL_def assms(1) using assms(2-) by (simp add: Let_def)

lemma parseV2URL_parts_nd:
  fixes E :: env and u :: gourl
  assumes "Split (Trim (Path u) CHR ''/'') CHR ''/'' = [nm, d]" "nm \<noteq> ''u''" "IsValidName nm"
    "Atoi d = Some rv"
  shows "parseV2URL E u = Inr \<lparr>Schema = ''cs'', User = [], Name = nm, Revision = rv, Series = []\<rparr>"
  unfolding parseV2URL_def assms(1) using assms(2-) by (simp add: Let_def)

lemma parseV2URL_parts_un:
  fixes E :: env and u :: gourl
  assumes "Split (Trim (Path u) CHR ''/'') CHR ''/'' = [''u'', usr, nm]" "IsValidName nm"
    "IsValidUser E usr"
  shows "parseV2URL E u = Inr \<lparr>Schema = ''cs'', User = usr, Name = nm, Revision = - 1, Series = []\<rparr>"
  unfolding parseV2URL_def assms(1) using assms(2-) by (simp add: Let_def)

lemma parseV2URL_parts_und:
  fixes E :: env and u :: gourl
  assumes "Split (Trim (Path u) CHR ''/'') CHR ''/'' = [''u'', usr, nm, d]" "IsValidName nm"
    "IsValidUser E usr" "Atoi d = Some rv"
  shows "parseV2URL E u = Inr \<lparr>Schema = ''cs'', User = usr, Name = nm, Revision = rv, Series = []\<rparr>"
  unfolding parseV2URL_def assms(1) using assms(2-) by (simp add: Let_def)

lemma hd_Join: "ps \<noteq> [] \<Longrightarrow> hd ps \<noteq> [] \<Longrightarrow> hd (Join ps sep) = hd (hd ps)"
  by (induction ps sep rule: Join.induct) auto

lemma Join_nonempty_hd: "ps \<noteq> [] \<Longrightarrow> hd ps \<noteq> [] \<Longrightarrow> Join ps sep \<noteq> []"
  by (induction ps sep rule: Join.induct) auto

lemma web_path_parts:
  assumes ne: "ps \<noteq> []" and fr: "\<forall>p\<in>set ps. CHR ''/'' \<notin> set p"
    and h: "hd ps \<noteq> []" and l: "last ps \<noteq> []"
  shows "Split (Trim (CHR ''/'' # Join ps CHR ''/'') CHR ''/'') CHR ''/'' = ps"
proof -
  let ?s = "Join ps CHR ''/''"
  have s: "?s \<noteq> []" by (rule Join_nonempty_hd[OF ne h])
  have "hd ps \<in> set ps" using ne by simp
  with fr h have hd: "hd ?s \<noteq> CHR ''/''"
    unfolding hd_Join[OF ne h] by (metis hd_in_set)
  have "last ps \<in> set ps" using ne by simp
  with fr l have la: "last ?s \<noteq> CHR ''/''"
    unfolding last_Join[OF ne l] by (metis last_in_set)
  have "Trim (CHR ''/'' # ?s) CHR ''/'' = ?s" by (rule Trim_slash[OF s hd la])
  then show ?thesis by (simp add: Split_Join[OF ne fr])
qed

lemma String_parts_last:
  assumes "IsValidName (Name r)" "0 \<le> Revision r \<or> Revision r = - 1"
  shows "last (String_parts r) \<noteq> []"
proof -
  have n: "Name r \<noteq> []" using IsValidName_hd[OF assms(1)] by simp
  have "0 \<le> Revision r \<Longrightarrow> formatDecimal (Revision r) \<noteq> []"
    using formatDecimal_digits by blast
  with n show ?thesis by (auto simp: String_parts_def)
qed

lemma String_parts_free:
  assumes "IsValidName (Name r)"
    and "User r = [] \<or> CHR ''/'' \<notin> set (User r)"
    and "Series r = [] \<or> CHR ''/'' \<notin> set (Series r)"
  shows "\<forall>p\<in>set (String_parts r). CHR ''/'' \<notin> set p"
  using IsValidName_no_slash[OF assms(1)] assms(2,3) formatDecimal_no_slash[of "Revision r"]
  by (auto simp: String_parts_def)

lemma parseV2URL_rendered:
  fixes E :: env and u :: gourl
  assumes path: "Path u = (if User r \<noteq> [] then ''/u/'' else ''/'') @ Join (String_parts r) CHR ''/''"
    and name: "IsValidName (Name r)" "User r = [] \<longrightarrow> Name r \<noteq> ''u''"
    and user: "User r = [] \<or> (IsValidUser E (User r) \<and> CHR ''/'' \<notin> set (User r))"
    and series: "Series r = [] \<or>
        (IsValidSeries E (Series r) \<and> Atoi (Series r) = None \<and> CHR ''/'' \<notin> set (Series r))"
    and rev: "- 1 \<le> Revision r" "Revision r < 2 ^ 63"
  shows "parseV2URL E u = Inr (r\<lparr>Schema := ''cs''\<rparr>)"
proof -
  let ?ps = "String_parts r"
  have ne: "?ps \<noteq> []" by (simp add: String_parts_def)
  have fr: "\<forall>p\<in>set ?ps. CHR ''/'' \<notin> set p"
    using String_parts_free[OF name(1)] user series by blast
  have la: "last ?ps \<noteq> []" using String_parts_last[OF name(1)] rev(1) by force
  have nmne: "Name r \<noteq> []" using IsValidName_hd[OF name(1)] by simp
  obtain a usr nm rv ser where r: "r = \<lparr>Schema = a, User = usr, Name = nm, Revision = rv, Series = ser\<rparr>"
    by (cases r) auto
  have nv: "IsValidName nm" using name(1) by (simp add: r)
  have uu: "usr = [] \<or> IsValidUser E usr" using user by (auto simp: r)
  have ss: "ser = [] \<or> (IsValidSeries E ser \<and> Atoi ser = None)" using series by (auto simp: r)
  have rr: "rv = - 1 \<or> (0 \<le> rv \<and> Atoi (formatDecimal rv) = Some rv)"
    using rev by (auto simp: r Atoi_formatDecimal)
  have goal: "r\<lparr>Schema := ''cs''\<rparr>
      = \<lparr>Schema = ''cs'', User = usr, Name = nm, Revision = rv, Series = ser\<rparr>"
    by (simp add: r)
  show ?thesis
  proof (cases "usr = []")
    case nouser: True
    then have nu: "nm \<noteq> ''u''" using name(2) by (simp add: r)
    have hd: "hd ?ps \<noteq> []" using nouser nmne by (simp add: String_parts_def r)
    have "Path u = CHR ''/'' # Join ?ps CHR ''/''" using path nouser by (simp add: r)
    then have sp: "Split (Trim (Path u) CHR ''/'') CHR ''/'' = ?ps"
      using web_path_parts[OF ne fr hd la] by simp
    show ?thesis
    proof (cases "ser = []")
      case noseries: True
      show ?thesis
      proof (cases "0 \<le> rv")
        case True
        with rr have at: "Atoi (formatDecimal rv) = Some rv" by auto
        have "Split (Trim (Path u) CHR ''/'') CHR ''/'' = [nm, formatDecimal rv]"
          using True nouser noseries by (simp add: sp String_parts_def r)
        from parseV2URL_parts_nd[OF this nu nv at] show ?thesis
          unfolding goal using nouser noseries by simp
      next
        case False
        with rr have m: "rv = - 1" by auto
        have "Split (Trim (Path u) CHR ''/'') CHR ''/'' = [nm]"
          using m nouser noseries by (simp add: sp String_parts_def r)
        from parseV2URL_parts_n[OF this nu nv] show ?thesis
          unfolding goal using nouser noseries m by simp
      qed
    next
      case False
      with ss have s: "IsValidSeries E ser" "Atoi ser = None" by auto
      show ?thesis
      proof (cases "0 \<le> rv")
        case True
        with rr have at: "Atoi (formatDecimal rv) = Some rv" by auto
        have "Split (Trim (Path u) CHR ''/'') CHR ''/'' = nm # ser # [formatDecimal rv]"
          using True nouser False by (simp add: sp String_parts_def r)
        from parseV2URL_series_no_user[OF this nu s(2), of E] show ?thesis
          unfolding goal using nouser s(1) nv at by simp
      next
        case nr: False
        with rr have m: "rv = - 1" by auto
        have "Split (Trim (Path u) CHR ''/'') CHR ''/'' = nm # ser # []"
          using m nouser False by (simp add: sp String_parts_def r)
        from parseV2URL_series_no_user[OF this nu s(2), of E] show ?thesis
          unfolding goal using nouser s(1) nv m by simp
      qed
    qed
  next
    case False
    with uu have uv: "IsValidUser E usr" by auto
    let ?qs = "''u'' # ?ps"
    have qne: "?qs \<noteq> []" by simp
    have qfr: "\<forall>p\<in>set ?qs. CHR ''/'' \<notin> set p" using fr by simp
    have qhd: "hd ?qs \<noteq> []" by simp
    have qla: "last ?qs \<noteq> []" using la ne by simp
    have ur: "User r = usr" by (simp add: r)
    have "Path u = CHR ''/'' # Join ?qs CHR ''/''"
      using path False unfolding ur by (simp add: Join_Cons[OF ne])
    then have sp: "Split (Trim (Path u) CHR ''/'') CHR ''/'' = ?qs"
      using web_path_parts[OF qne qfr qhd qla] by simp
    show ?thesis
    proof (cases "ser = []")
      case noseries: True
      show ?thesis
      proof (cases "0 \<le> rv")
        case True
        with rr have at: "Atoi (formatDecimal rv) = Some rv" by auto
        have "Split (Trim (Path u) CHR ''/'') CHR ''/'' = [''u'', usr, nm, formatDecimal rv]"
          using True False noseries by (simp add: sp String_parts_def r)
        from parseV2URL_parts_und[OF this nv uv at] show ?thesis
          unfolding goal using noseries by simp
      next
        case nr: False
        with rr have m: "rv = - 1" by auto
        have "Split (Trim (Path u) CHR ''/'') CHR ''/'' = [''u'', usr, nm]"
          using m False noseries by (simp add: sp String_parts_def r)
        from parseV2URL_parts_un[OF this nv uv] show ?thesis
          unfolding goal using noseries m by simp
      qed
    next
      case hasseries: False
      with ss have s: "IsValidSeries E ser" "Atoi ser = None" by auto
      show ?thesis
      proof (cases "0 \<le> rv")
        case True
        with rr have at: "Atoi (formatDecimal rv) = Some rv" by auto
        have "Split (Trim (Path u) CHR ''/'') CHR ''/'' = ''u'' # usr # nm # ser # [formatDecimal rv]"
          using True False hasseries by (simp add: sp String_parts_def r)
        from parseV2URL_series_user[OF this s(2), of E] show ?thesis
          unfolding goal using s(1) nv uv at by simp
      next
        case nr: False
        with rr have m: "rv = - 1" by auto
        have "Split (Trim (Path u) CHR ''/'') CHR ''/'' = ''u'' # usr # nm # ser # []"
          using m False hasseries by (simp add: sp String_parts_def r)
        from parseV2URL_series_user[OF this s(2), of E] show ?thesis
          unfolding goal using s(1) nv uv m by simp
      qed
    qed
  qed
qed

subsection \<open>The web grammar and the slash grammar\<close>

lemma ParseURL_web_rendered:
  fixes E :: env
  assumes web: "url_Parse E web
          = Some (hostURL sch host
                   ((if User r \<noteq> [] then ''/u/'' else ''/'') @ Join (String_parts r) CHR ''/''))"
    and sch: "sch = ''http'' \<or> sch = ''https''"
    and schema: "Schema r = ''cs''"
    and name: "IsValidName (Name r)" "User r = [] \<longrightarrow> Name r \<noteq> ''u''"
    and user: "User r = [] \<or> (IsValidUser E (User r) \<and> CHR ''/'' \<notin> set (User r))"
    and series: "Series r = [] \<or>
        (IsValidSeries E (Series r) \<and> Atoi (Series r) = None \<and> CHR ''/'' \<notin> set (Series r))"
    and rev: "- 1 \<le> Revision r" "Revision r < 2 ^ 63"
  shows "ParseURL E web = Inr r"
proof -
  let ?u = "hostURL sch host ((if User r \<noteq> [] then ''/u/'' else ''/'') @ Join (String_parts r) CHR ''/'')"
  have path: "Path ?u = (if User r \<noteq> [] then ''/u/'' else ''/'') @ Join (String_parts r) CHR ''/''"
    by (simp add: hostURL_def)
  have "parseV2URL E ?u = Inr (r\<lparr>Schema := ''cs''\<rparr>)"
    by (rule parseV2URL_rendered[OF path name user series rev])
  then have v2: "parseV2URL E ?u = Inr r" using schema by (cases r) simp
  have "ParseURL E web = map_sum id defaultSchema (parseV2URL E ?u)"
    by (rule ParseURL_host[OF web sch])
  also have "\<dots> = Inr r" using schema by (simp add: v2 defaultSchema_def)
  finally show ?thesis .
qed

lemma ParseURL_alice_foo_trusty_3:
  fixes E :: env
  assumes web: "url_Parse E ''https://store.example/u/alice/foo/trusty/3''
                 = Some (hostURL ''https'' ''store.example'' ''/u/alice/foo/trusty/3'')"
    and cs: "url_Parse E ''cs:alice/foo/trusty/3'' = Some (opaqueURL ''cs'' ''alice/foo/trusty/3'')"
    and trusty: "''trusty'' \<in> set (SupportedSeries E)"
    and alice: "IsValidUser E ''alice''"
    and not_series: "\<not> IsValidSeries E ''alice''"
  shows "ParseURL E ''https://store.example/u/alice/foo/trusty/3''
           = Inr \<lparr>Schema = ''cs'', User = ''alice'', Name = ''foo'', Revision = 3, Series = ''trusty''\<rparr>
       \<and> ParseURL E ''cs:alice/foo/trusty/3''
           = Inr \<lparr>Schema = ''cs'', User = ''alice'', Name = ''foo'', Revision = 3, Series = ''trusty''\<rparr>"
proof
  have s: "IsValidSeries E ''trusty''" using trusty by (rule IsValidSeries_supported)
  have "ParseURL E ''https://store.example/u/alice/foo/trusty/3''
      = map_sum id defaultSchema (parseV2URL E (hostURL ''https'' ''store.example'' ''/u/alice/foo/trusty/3''))"
    by (rule ParseURL_host[OF web]) simp
  also have "\<dots> = Inr \<lparr>Schema = ''cs'', User = ''alice'', Name = ''foo'', Revision = 3, Series = ''trusty''\<rparr>"
    by (simp add: parseV2URL_alice_foo_trusty_3[OF s alice] defaultSchema_def)
  finally show "ParseURL E ''https://store.example/u/alice/foo/trusty/3''
           = Inr \<lparr>Schema = ''cs'', User = ''alice'', Name = ''foo'', Revision = 3, Series = ''trusty''\<rparr>" .
  have f: "Split ''alice/foo/trusty/3'' CHR ''/'' ! 0 = ''alice''" by code_simp
  have "ParseURL E ''cs:alice/foo/trusty/3''
      = map_sum id defaultSchema (parseNonWebURL E ((opaqueURL ''cs'' ''alice/foo/trusty/3'')\<lparr>Path := ''alice/foo/trusty/3''\<rparr>) ''cs:alice/foo/trusty/3'')"
    by (rule ParseURL_opaque[OF cs]) simp
  also have "\<dots> = map_sum id defaultSchema (Inr \<lparr>Schema = ''cs'', User = ''alice'', Name = ''foo'', Revision = 3, Series = ''trusty''\<rparr>)"
    using not_series f
    by (subst parseNonWebURL_cases(2)[OF _ parseV3URL_alice_foo_trusty_3[OF s alice]]) (simp_all add: opaqueURL_def)
  finally show "ParseURL E ''cs:alice/foo/trusty/3''
           = Inr \<lparr>Schema = ''cs'', User = ''alice'', Name = ''foo'', Revision = 3, Series = ''trusty''\<rparr>"
    by (simp add: defaultSchema_def)
qed

text \<open>
  Claim C7. The web grammar and the slash grammar agree on the common shapes. Take any
  URL value \<open>r\<close> with schema \<^verbatim>\<open>cs\<close>, a valid name, a user that is unset or valid, a
  series that is unset or valid, and a revision that is unset or a non-negative
  \<^verbatim>\<open>int\<close>. The web URL with path \<^verbatim>\<open>/[u/<user>/]<name>[/<series>][/<revision>]\<close>
  and the text \<^verbatim>\<open>cs:[<user>/]<name>[/<series>][/<revision>]\<close> both parse to
  \<open>r\<close>, provided that the first segment of the text is not the name of a series (or the
  compact grammar would read it), that the name is not a series when the series is unset,
  that the series does not read as a number, and that without a user the name is not
  \<^verbatim>\<open>u\<close> (or the web grammar would read the user prefix). In particular
  \<^verbatim>\<open>"https://store.example/u/alice/foo/trusty/3"\<close> and
  \<^verbatim>\<open>"cs:alice/foo/trusty/3"\<close> both parse to schema \<^verbatim>\<open>cs\<close>, user
  \<^verbatim>\<open>alice\<close>, name \<^verbatim>\<open>foo\<close>, series \<^verbatim>\<open>trusty\<close>, revision 3.
\<close>

theorem web_and_slash_grammars_agree:
  "(\<forall>(E::env) web sch host (r::URL).
      (sch = ''http'' \<or> sch = ''https'')
      \<and> url_Parse E web
          = Some (hostURL sch host
                   ((if User r \<noteq> [] then ''/u/'' else ''/'') @ Join (String_parts r) CHR ''/''))
      \<and> url_Parse E (URL_String r) = Some (opaqueURL ''cs'' (Join (String_parts r) CHR ''/''))
      \<and> Schema r = ''cs''
      \<and> IsValidName (Name r)
      \<and> (User r = [] \<longrightarrow> Name r \<noteq> ''u'')
      \<and> (User r = [] \<or> Series r = [] \<longrightarrow> \<not> IsValidSeries E (Name r))
      \<and> (User r \<noteq> [] \<longrightarrow>
            IsValidUser E (User r) \<and> CHR ''/'' \<notin> set (User r) \<and> \<not> IsValidSeries E (User r))
      \<and> (Series r \<noteq> [] \<longrightarrow>
            IsValidSeries E (Series r) \<and> Atoi (Series r) = None \<and> CHR ''/'' \<notin> set (Series r))
      \<and> - 1 \<le> Revision r \<and> Revision r < 2 ^ 63
      \<longrightarrow> ParseURL E web = Inr r \<and> ParseURL E (URL_String r) = Inr r)
   \<and> (\<forall>E::env.
      url_Parse E ''https://store.example/u/alice/foo/trusty/3''
          = Some (hostURL ''https'' ''store.example'' ''/u/alice/foo/trusty/3'')
      \<and> url_Parse E ''cs:alice/foo/trusty/3'' = Some (opaqueURL ''cs'' ''alice/foo/trusty/3'')
      \<and> ''trusty'' \<in> set (SupportedSeries E) \<and> IsValidUser E ''alice''
      \<and> \<not> IsValidSeries E ''alice''
      \<longrightarrow>
        ParseURL E ''https://store.example/u/alice/foo/trusty/3''
           = Inr \<lparr>Schema = ''cs'', User = ''alice'', Name = ''foo'', Revision = 3, Series = ''trusty''\<rparr>
        \<and> ParseURL E ''cs:alice/foo/trusty/3''
           = Inr \<lparr>Schema = ''cs'', User = ''alice'', Name = ''foo'', Revision = 3, Series = ''trusty''\<rparr>)"
proof (intro conjI allI impI)
  fix E :: env and web sch host and r :: URL
  assume h: "(sch = ''http'' \<or> sch = ''https'')
      \<and> url_Parse E web
          = Some (hostURL sch host
                   ((if User r \<noteq> [] then ''/u/'' else ''/'') @ Join (String_parts r) CHR ''/''))
      \<and> url_Parse E (URL_String r) = Some (opaqueURL ''cs'' (Join (String_parts r) CHR ''/''))
      \<and> Schema r = ''cs''
      \<and> IsValidName (Name r)
      \<and> (User r = [] \<longrightarrow> Name r \<noteq> ''u'')
      \<and> (User r = [] \<or> Series r = [] \<longrightarrow> \<not> IsValidSeries E (Name r))
      \<and> (User r \<noteq> [] \<longrightarrow>
            IsValidUser E (User r) \<and> CHR ''/'' \<notin> set (User r) \<and> \<not> IsValidSeries E (User r))
      \<and> (Series r \<noteq> [] \<longrightarrow>
            IsValidSeries E (Series r) \<and> Atoi (Series r) = None \<and> CHR ''/'' \<notin> set (Series r))
      \<and> - 1 \<le> Revision r \<and> Revision r < 2 ^ 63"
  then have sch: "sch = ''http'' \<or> sch = ''https''"
    and web: "url_Parse E web
          = Some (hostURL sch host
                   ((if User r \<noteq> [] then ''/u/'' else ''/'') @ Join (String_parts r) CHR ''/''))"
    and cs: "url_Parse E (URL_String r) = Some (opaqueURL ''cs'' (Join (String_parts r) CHR ''/''))"
    and schema: "Schema r = ''cs''"
    and vn: "IsValidName (Name r)"
    and nu: "User r = [] \<longrightarrow> Name r \<noteq> ''u''"
    and ns: "User r = [] \<or> Series r = [] \<longrightarrow> \<not> IsValidSeries E (Name r)"
    and us: "User r \<noteq> [] \<longrightarrow>
            IsValidUser E (User r) \<and> CHR ''/'' \<notin> set (User r) \<and> \<not> IsValidSeries E (User r)"
    and se: "Series r \<noteq> [] \<longrightarrow>
            IsValidSeries E (Series r) \<and> Atoi (Series r) = None \<and> CHR ''/'' \<notin> set (Series r)"
    and lo: "- 1 \<le> Revision r" and hi: "Revision r < 2 ^ 63"
    by blast+
  have u2: "User r = [] \<or> (IsValidUser E (User r) \<and> CHR ''/'' \<notin> set (User r))"
    using us by blast
  have u3: "User r = [] \<or>
        (IsValidUser E (User r) \<and> CHR ''/'' \<notin> set (User r) \<and> \<not> IsValidSeries E (User r))"
    using us by blast
  have s2: "Series r = [] \<or>
        (IsValidSeries E (Series r) \<and> Atoi (Series r) = None \<and> CHR ''/'' \<notin> set (Series r))"
    using se by blast
  show "ParseURL E web = Inr r"
    by (rule ParseURL_web_rendered[OF web sch schema vn nu u2 s2 lo hi])
  have render: "url_Parse E (URL_String r)
      = Some (opaqueURL (Schema r) (Join (String_parts r) CHR ''/''))"
    using cs schema by simp
  have sc: "Schema r = ''cs'' \<or> Schema r = ''local''" using schema by simp
  show "ParseURL E (URL_String r) = Inr r"
    by (rule ParseURL_rendered[OF render sc vn ns u3 s2 lo hi])
next
  fix E :: env
  assume h: "url_Parse E ''https://store.example/u/alice/foo/trusty/3''
          = Some (hostURL ''https'' ''store.example'' ''/u/alice/foo/trusty/3'')
      \<and> url_Parse E ''cs:alice/foo/trusty/3'' = Some (opaqueURL ''cs'' ''alice/foo/trusty/3'')
      \<and> ''trusty'' \<in> set (SupportedSeries E) \<and> IsValidUser E ''alice''
      \<and> \<not> IsValidSeries E ''alice''"
  then have web: "url_Parse E ''https://store.example/u/alice/foo/trusty/3''
          = Some (hostURL ''https'' ''store.example'' ''/u/alice/foo/trusty/3'')"
    and cs: "url_Parse E ''cs:alice/foo/trusty/3'' = Some (opaqueURL ''cs'' ''alice/foo/trusty/3'')"
    and t: "''trusty'' \<in> set (SupportedSeries E)" and a: "IsValidUser E ''alice''"
    and n: "\<not> IsValidSeries E ''alice''" by simp_all
  from ParseURL_alice_foo_trusty_3[OF web cs t a n]
  show "ParseURL E ''https://store.example/u/alice/foo/trusty/3''
           = Inr \<lparr>Schema = ''cs'', User = ''alice'', Name = ''foo'', Revision = 3, Series = ''trusty''\<rparr>"
    and "ParseURL E ''cs:alice/foo/trusty/3''
           = Inr \<lparr>Schema = ''cs'', User = ''alice'', Name = ''foo'', Revision = 3, Series = ''trusty''\<rparr>"
    by simp_all
qed

theorem web_and_slash_grammars_agree_witness:
  "ParseURL sampleEnv ''https://store.example/u/alice/foo/trusty/3''
     = Inr \<lparr>Schema = ''cs'', User = ''alice'', Name = ''foo'', Revision = 3, Series = ''trusty''\<rparr>
   \<and> ParseURL sampleEnv ''cs:alice/foo/trusty/3''
     = Inr \<lparr>Schema = ''cs'', User = ''alice'', Name = ''foo'', Revision = 3, Series = ''trusty''\<rparr>
   \<and> ParseURL sampleEnv ''http://jujucharms.com/mysql/15''
     = Inr \<lparr>Schema = ''cs'', User = [], Name = ''mysql'', Revision = 15, Series = []\<rparr>
   \<and> ParseURL sampleEnv ''cs:mysql/15''
     = Inr \<lparr>Schema = ''cs'', User = [], Name = ''mysql'', Revision = 15, Series = []\<rparr>"
proof -
  let ?r1 = "\<lparr>Schema = ''cs'', User = ''alice'', Name = ''foo'', Revision = 3, Series = ''trusty''\<rparr>"
  let ?r2 = "\<lparr>Schema = ''cs'', User = [], Name = ''mysql'', Revision = 15, Series = []\<rparr>"
  note general = web_and_slash_grammars_agree[THEN conjunct1, rule_format]
  note particular = web_and_slash_grammars_agree[THEN conjunct2, rule_format]
  have h1: "(''https'' = ''http'' \<or> ''https'' = ''https'')
      \<and> url_Parse sampleEnv ''https://store.example/u/alice/foo/trusty/3''
          = Some (hostURL ''https'' ''store.example''
                   ((if User ?r1 \<noteq> [] then ''/u/'' else ''/'') @ Join (String_parts ?r1) CHR ''/''))
      \<and> url_Parse sampleEnv (URL_String ?r1) = Some (opaqueURL ''cs'' (Join (String_parts ?r1) CHR ''/''))
      \<and> Schema ?r1 = ''cs''
      \<and> IsValidName (Name ?r1)
      \<and> (User ?r1 = [] \<longrightarrow> Name ?r1 \<noteq> ''u'')
      \<and> (User ?r1 = [] \<or> Series ?r1 = [] \<longrightarrow> \<not> IsValidSeries sampleEnv (Name ?r1))
      \<and> (User ?r1 \<noteq> [] \<longrightarrow>
            IsValidUser sampleEnv (User ?r1) \<and> CHR ''/'' \<notin> set (User ?r1) \<and> \<not> IsValidSeries sampleEnv (User ?r1))
      \<and> (Series ?r1 \<noteq> [] \<longrightarrow>
            IsValidSeries sampleEnv (Series ?r1) \<and> Atoi (Series ?r1) = None \<and> CHR ''/'' \<notin> set (Series ?r1))
      \<and> - 1 \<le> Revision ?r1 \<and> Revision ?r1 < 2 ^ 63"
    by code_simp
  have s1: "URL_String ?r1 = ''cs:alice/foo/trusty/3''" by code_simp
  have h2: "(''http'' = ''http'' \<or> ''http'' = ''https'')
      \<and> url_Parse sampleEnv ''http://jujucharms.com/mysql/15''
          = Some (hostURL ''http'' ''jujucharms.com''
                   ((if User ?r2 \<noteq> [] then ''/u/'' else ''/'') @ Join (String_parts ?r2) CHR ''/''))
      \<and> url_Parse sampleEnv (URL_String ?r2) = Some (opaqueURL ''cs'' (Join (String_parts ?r2) CHR ''/''))
      \<and> Schema ?r2 = ''cs''
      \<and> IsValidName (Name ?r2)
      \<and> (User ?r2 = [] \<longrightarrow> Name ?r2 \<noteq> ''u'')
      \<and> (User ?r2 = [] \<or> Series ?r2 = [] \<longrightarrow> \<not> IsValidSeries sampleEnv (Name ?r2))
      \<and> (User ?r2 \<noteq> [] \<longrightarrow>
            IsValidUser sampleEnv (User ?r2) \<and> CHR ''/'' \<notin> set (User ?r2) \<and> \<not> IsValidSeries sampleEnv (User ?r2))
      \<and> (Series ?r2 \<noteq> [] \<longrightarrow>
            IsValidSeries sampleEnv (Series ?r2) \<and> Atoi (Series ?r2) = None \<and> CHR ''/'' \<notin> set (Series ?r2))
      \<and> - 1 \<le> Revision ?r2 \<and> Revision ?r2 < 2 ^ 63"
    by code_simp
  have s2: "URL_String ?r2 = ''cs:mysql/15''" by code_simp
  have h3: "url_Parse sampleEnv ''https://store.example/u/alice/foo/trusty/3''
          = Some (hostURL ''https'' ''store.example'' ''/u/alice/foo/trusty/3'')
      \<and> url_Parse sampleEnv ''cs:alice/foo/trusty/3'' = Some (opaqueURL ''cs'' ''alice/foo/trusty/3'')
      \<and> ''trusty'' \<in> set (SupportedSeries sampleEnv) \<and> IsValidUser sampleEnv ''alice''
      \<and> \<not> IsValidSeries sampleEnv ''alice''"
    by code_simp
  from general[OF h1] have c1: "ParseURL sampleEnv ''https://store.example/u/alice/foo/trusty/3'' = Inr ?r1"
    and c2: "ParseURL sampleEnv ''cs:alice/foo/trusty/3'' = Inr ?r1"
    unfolding s1 by blast+
  from general[OF h2] have c3: "ParseURL sampleEnv ''http://jujucharms.com/mysql/15'' = Inr ?r2"
    and c4: "ParseURL sampleEnv ''cs:mysql/15'' = Inr ?r2"
    unfolding s2 by blast+
  from particular[OF h3] have c5: "ParseURL sampleEnv ''cs:alice/foo/trusty/3'' = Inr ?r1" by blast
  from c1 c2 c3 c4 c5 show ?thesis by blast
qed

end
